theory Spec2Isabelle
  imports Main
begin

section \<open>Python values and exceptions\<close>

text \<open>
  The controller works on untyped documents parsed from YAML. A document is a tree of
  scalars, lists and dictionaries. Dictionaries keep insertion order, so they are
  association lists with string keys. Floats, dates and non-string keys of YAML are left
  out: the controller never reads or writes them. Anchors and aliases of YAML are not
  modelled, so a document is a tree and an in-place update is a functional update.
\<close>

datatype yaml =
    YNull
  | YBool bool
  | YInt int
  | YStr string
  | YList "yaml list"
  | YMap "(string \<times> yaml) list"

text \<open>
  The exceptions the code can meet. \<open>ApiException\<close> carries the HTTP status of the
  Kubernetes client. \<open>ApiValueError\<close> is the client's refusal of a malformed argument,
  \<open>TransportError\<close> any other failure of a client call that is not an ApiException
  (a connection that cannot be opened), \<open>TemplateError\<close> a template file that cannot
  be opened or parsed.
\<close>

datatype exn =
    KeyError
  | TypeError
  | IndexError
  | AttributeError
  | ApiException nat
  | ApiValueError
  | TransportError
  | TemplateError

definition is_ApiException :: "exn \<Rightarrow> bool" where
  "is_ApiException e = (case e of ApiException _ \<Rightarrow> True | _ \<Rightarrow> False)"

definition bind :: "exn + 'a \<Rightarrow> ('a \<Rightarrow> exn + 'b) \<Rightarrow> exn + 'b" where
  "bind r f = (case r of Inl e \<Rightarrow> Inl e | Inr v \<Rightarrow> f v)"

subsection \<open>Dictionary and subscript operations\<close>

definition dict_get :: "(string \<times> yaml) list \<Rightarrow> string \<Rightarrow> yaml option" where
  "dict_get m k = map_of m k"

fun dict_set :: "(string \<times> yaml) list \<Rightarrow> string \<Rightarrow> yaml \<Rightarrow> (string \<times> yaml) list" where
  "dict_set [] k v = [(k, v)]"
| "dict_set ((k', v') # m) k v =
     (if k' = k then (k, v) # m else (k', v') # dict_set m k v)"

text \<open>\<open>d.get(k, default)\<close>: only a dictionary has the method.\<close>

definition py_get :: "yaml \<Rightarrow> string \<Rightarrow> yaml \<Rightarrow> exn + yaml" where
  "py_get d k dflt =
     (case d of
        YMap m \<Rightarrow> Inr (case dict_get m k of None \<Rightarrow> dflt | Some v \<Rightarrow> v)
      | _ \<Rightarrow> Inl AttributeError)"

text \<open>\<open>d[k]\<close> with a string key: KeyError on a missing key, TypeError on anything
  that is not a dictionary.\<close>

definition py_getitem :: "yaml \<Rightarrow> string \<Rightarrow> exn + yaml" where
  "py_getitem d k =
     (case d of
        YMap m \<Rightarrow> (case dict_get m k of None \<Rightarrow> Inl KeyError | Some v \<Rightarrow> Inr v)
      | _ \<Rightarrow> Inl TypeError)"

text \<open>\<open>d[k] = v\<close> with a string key.\<close>

definition py_setitem :: "yaml \<Rightarrow> string \<Rightarrow> yaml \<Rightarrow> exn + yaml" where
  "py_setitem d k v =
     (case d of
        YMap m \<Rightarrow> Inr (YMap (dict_set m k v))
      | _ \<Rightarrow> Inl TypeError)"

text \<open>\<open>d[0]\<close>: the first element of a list, the first character of a string; a
  dictionary of this model has no key \<open>0\<close>.\<close>

definition py_getitem0 :: "yaml \<Rightarrow> exn + yaml" where
  "py_getitem0 d =
     (case d of
        YList [] \<Rightarrow> Inl IndexError
      | YList (x # xs) \<Rightarrow> Inr x
      | YStr [] \<Rightarrow> Inl IndexError
      | YStr (c # cs) \<Rightarrow> Inr (YStr [c])
      | YMap m \<Rightarrow> Inl KeyError
      | _ \<Rightarrow> Inl TypeError)"

text \<open>\<open>d[0][k] = v\<close>: the element is fetched, updated in place, and stays where
  it was. Only a list can hold a dictionary at index 0.\<close>

definition py_setitem0 :: "yaml \<Rightarrow> string \<Rightarrow> yaml \<Rightarrow> exn + yaml" where
  "py_setitem0 d k v =
     bind (py_getitem0 d) (\<lambda>x.
     bind (py_setitem x k v) (\<lambda>x'.
       (case d of YList (y # ys) \<Rightarrow> Inr (YList (x' # ys)) | _ \<Rightarrow> Inl TypeError)))"

text \<open>\<open>d[k1][k2]...[kn]\<close> followed by an update \<open>f\<close> of what is found there;
  the enclosing dictionaries are rebuilt around the updated value.\<close>

fun update_in :: "yaml \<Rightarrow> string list \<Rightarrow> (yaml \<Rightarrow> exn + yaml) \<Rightarrow> exn + yaml" where
  "update_in d [] f = f d"
| "update_in d (k # ks) f =
     bind (py_getitem d k) (\<lambda>c.
     bind (update_in c ks f) (\<lambda>c'. py_setitem d k c'))"

text \<open>Reading \<open>d[k1][k2]...[kn]\<close>.\<close>

fun get_in :: "yaml \<Rightarrow> string list \<Rightarrow> exn + yaml" where
  "get_in d [] = Inr d"
| "get_in d (k # ks) = bind (py_getitem d k) (\<lambda>c. get_in c ks)"

section \<open>The kind registry\<close>

definition PLURAL_MAP :: "(string \<times> string) list" where
  "PLURAL_MAP =
     [(''Distribution'', ''distributions''),
      (''Function'', ''functions''),
      (''CachePolicy'', ''cachepolicies''),
      (''OriginRequestPolicy'', ''originrequestpolicies''),
      (''KeyGroup'', ''keygroups'')]"

text \<open>\<open>PLURAL_MAP.get(kind)\<close>: a list or a dictionary is unhashable and raises
  TypeError; any other value that is not one of the five keys finds nothing.\<close>

definition plural_get :: "yaml \<Rightarrow> exn + string option" where
  "plural_get kind =
     (case kind of
        YStr s \<Rightarrow> Inr (map_of PLURAL_MAP s)
      | YList _ \<Rightarrow> Inl TypeError
      | YMap _ \<Rightarrow> Inl TypeError
      | _ \<Rightarrow> Inr None)"

text \<open>\<open>kind in PLURAL_MAP\<close>.\<close>

definition in_PLURAL_MAP :: "yaml \<Rightarrow> exn + bool" where
  "in_PLURAL_MAP kind = bind (plural_get kind) (\<lambda>p. Inr (p \<noteq> None))"

section \<open>The template materializer\<close>

text \<open>
  An f-string field \<open>{v}\<close> prints a string as it is. What Python prints for a value that
  is not a string is the parameter \<open>fmt\<close>.
\<close>

definition py_format :: "(yaml \<Rightarrow> string) \<Rightarrow> yaml \<Rightarrow> string" where
  "py_format fmt v = (case v of YStr s \<Rightarrow> s | _ \<Rightarrow> fmt v)"

definition origin_id_of :: "string \<Rightarrow> string \<Rightarrow> string" where
  "origin_id_of namespace ingress_name = namespace @ ''-'' @ ingress_name @ ''-origin''"

definition name_prefix_of :: "string \<Rightarrow> string \<Rightarrow> string" where
  "name_prefix_of namespace ingress_name = namespace @ ''-'' @ ingress_name @ ''-''"

definition opt_yaml :: "string option \<Rightarrow> yaml" where
  "opt_yaml h = (case h of None \<Rightarrow> YNull | Some s \<Rightarrow> YStr s)"

text \<open>The four assignments made to a document of kind Distribution, in order.\<close>

definition patch_distribution :: "string \<Rightarrow> string \<Rightarrow> yaml \<Rightarrow> yaml \<Rightarrow> exn + yaml" where
  "patch_distribution namespace ingress_name alb_dns doc =
     bind (update_in doc [''spec'', ''distributionConfig'']
             (\<lambda>dc. py_setitem dc ''comment''
                (YStr (''CloudFront for ALB '' @ namespace @ ''-'' @ ingress_name)))) (\<lambda>d1.
     bind (update_in d1 [''spec'', ''distributionConfig'', ''origins'', ''items'']
             (\<lambda>items. py_setitem0 items ''id''
                (YStr (origin_id_of namespace ingress_name)))) (\<lambda>d2.
     bind (update_in d2 [''spec'', ''distributionConfig'', ''origins'', ''items'']
             (\<lambda>items. py_setitem0 items ''domainName'' alb_dns)) (\<lambda>d3.
     update_in d3 [''spec'', ''distributionConfig'', ''defaultCacheBehavior'']
             (\<lambda>dcb. py_setitem dcb ''targetOriginId''
                (YStr (origin_id_of namespace ingress_name))))))"

text \<open>
  The body of the loop of \<open>load_and_patch_template\<close> for one document: \<open>Inr None\<close>
  is the \<open>continue\<close> of an unknown kind, \<open>Inr (Some d)\<close> the document appended to
  \<open>patched_docs\<close>, \<open>Inl e\<close> an exception.
\<close>

definition patch_doc ::
  "(yaml \<Rightarrow> string) \<Rightarrow> string \<Rightarrow> string \<Rightarrow> yaml \<Rightarrow> yaml \<Rightarrow> exn + yaml option" where
  "patch_doc fmt namespace ingress_name alb_dns doc =
     bind (py_get doc ''kind'' YNull) (\<lambda>kind.
     bind (py_get doc ''metadata'' (YMap [])) (\<lambda>meta.
     bind (in_PLURAL_MAP kind) (\<lambda>known.
       if \<not> known then Inr None
       else
         bind (py_setitem meta ''namespace'' (YStr namespace)) (\<lambda>meta1.
         bind (py_get meta1 ''name'' (YStr ''cf-object'')) (\<lambda>base_name.
         bind (py_setitem meta1 ''name''
                 (YStr (name_prefix_of namespace ingress_name @ py_format fmt base_name))) (\<lambda>meta2.
         bind (py_setitem doc ''metadata'' meta2) (\<lambda>doc1.
         bind (if kind = YStr ''Distribution''
               then patch_distribution namespace ingress_name alb_dns doc1
               else Inr doc1) (\<lambda>doc2.
           Inr (Some doc2)))))))))"

fun patch_docs ::
  "(yaml \<Rightarrow> string) \<Rightarrow> string \<Rightarrow> string \<Rightarrow> yaml \<Rightarrow> yaml list \<Rightarrow> exn + yaml list" where
  "patch_docs fmt namespace ingress_name alb_dns [] = Inr []"
| "patch_docs fmt namespace ingress_name alb_dns (doc # docs) =
     bind (patch_doc fmt namespace ingress_name alb_dns doc) (\<lambda>r.
     bind (patch_docs fmt namespace ingress_name alb_dns docs) (\<lambda>out.
       Inr ((case r of None \<Rightarrow> [] | Some d \<Rightarrow> [d]) @ out)))"

text \<open>
  \<open>template\<close> is what opening and parsing the file at TEMPLATE_PATH gives: the
  documents in file order, or the exception raised.
\<close>

definition load_and_patch_template ::
  "(yaml \<Rightarrow> string) \<Rightarrow> (exn + yaml list) \<Rightarrow> string \<Rightarrow> string \<Rightarrow> yaml \<Rightarrow> exn + yaml list" where
  "load_and_patch_template fmt template namespace ingress_name alb_dns =
     bind template (patch_docs fmt namespace ingress_name alb_dns)"

section \<open>Strings\<close>

text \<open>
  A string is a list of code points below 256. \<open>str.lower()\<close> maps the capital letters
  of that range (A to Z, and U+00C0 to U+00DE without the multiplication sign U+00D7)
  to the letter 32 places further on, and leaves every other code point as it is.
\<close>

definition lower_char :: "char \<Rightarrow> char" where
  "lower_char c =
     (let n = (of_char c :: nat)
      in if (65 \<le> n \<and> n \<le> 90) \<or> (192 \<le> n \<and> n \<le> 222 \<and> n \<noteq> 215)
         then char_of (n + 32) else c)"

definition py_lower :: "string \<Rightarrow> string" where
  "py_lower s = map lower_char s"

text \<open>\<open>s.startswith(p)\<close>; a value that is not a string has no such method.\<close>

definition startswith :: "string \<Rightarrow> string \<Rightarrow> bool" where
  "startswith s p = (take (length p) s = p)"

definition py_startswith :: "yaml \<Rightarrow> string \<Rightarrow> exn + bool" where
  "py_startswith v p = (case v of YStr s \<Rightarrow> Inr (startswith s p) | _ \<Rightarrow> Inl AttributeError)"

text \<open>\<open>for x in v\<close>: the elements of a list, the keys of a dictionary, the characters
  of a string.\<close>

definition py_iter :: "yaml \<Rightarrow> exn + yaml list" where
  "py_iter v =
     (case v of
        YList xs \<Rightarrow> Inr xs
      | YMap m \<Rightarrow> Inr (map (\<lambda>kv. YStr (fst kv)) m)
      | YStr s \<Rightarrow> Inr (map (\<lambda>c. YStr [c]) s)
      | _ \<Rightarrow> Inl TypeError)"

section \<open>The cluster and the calls made to it\<close>

text \<open>
  The objects of the Kubernetes client that the controller reads from an Ingress:
  \<open>ingress.status.load_balancer.ingress[0].hostname\<close>. Every attribute of the client's
  classes may be None.
\<close>

record V1IngressLoadBalancerIngress =
  hostname :: "string option"

record V1IngressLoadBalancerStatus =
  ingress :: "V1IngressLoadBalancerIngress list option"

record V1IngressStatus =
  load_balancer :: "V1IngressLoadBalancerStatus option"

record V1Ingress =
  annotations :: "string \<rightharpoonup> string"
  status :: "V1IngressStatus option"

text \<open>
  A call of the two API clients. The group and version of the custom objects are the same
  constants in every call and are left out. Custom-object calls carry plural, namespace
  and name (or body); Ingress calls carry name and namespace, and the patch the value
  written to the annotation \<open>external-dns.alpha.kubernetes.io/target\<close> (None removes it).
\<close>

datatype api_call =
    GetObj string string string
  | CreateObj string string yaml
  | ListObj string string
  | DeleteObj string string string
  | ReadIngress string string
  | PatchIngress string string "string option"

datatype log_line = Info string | Error string exn

text \<open>
  The state the controller acts on: the custom objects of the cluster as (plural,
  namespace, body), the Ingresses by (namespace, name), the calls issued so far and the
  lines logged so far.
\<close>

record world =
  objects :: "(string \<times> string \<times> yaml) list"
  ingresses :: "string \<times> string \<rightharpoonup> V1Ingress"
  trace :: "api_call list"
  logs :: "log_line list"

text \<open>
  What lies outside the program: \<open>fmt\<close> prints a value that is not a string,
  \<open>template\<close> is the parsed template file, and \<open>faults n c\<close> is the exception, if any,
  with which the call \<open>c\<close> fails when \<open>n\<close> calls have been issued before it.
\<close>

record env =
  fmt :: "yaml \<Rightarrow> string"
  template :: "exn + yaml list"
  faults :: "nat \<Rightarrow> api_call \<Rightarrow> exn option"

type_synonym 'a prog = "world \<Rightarrow> (exn + 'a) \<times> world"

definition ret :: "'a \<Rightarrow> 'a prog" where
  "ret v w = (Inr v, w)"

definition lift :: "exn + 'a \<Rightarrow> 'a prog" where
  "lift r w = (r, w)"

definition seq :: "'a prog \<Rightarrow> ('a \<Rightarrow> 'b prog) \<Rightarrow> 'b prog" where
  "seq m f w = (case m w of (Inl e, w1) \<Rightarrow> (Inl e, w1) | (Inr v, w1) \<Rightarrow> f v w1)"

text \<open>\<open>try: m except C as e: handler\<close>, where \<open>catches\<close> says which exceptions are of
  class C. State changes made before the exception stay.\<close>

definition try_except :: "'a prog \<Rightarrow> (exn \<Rightarrow> bool) \<Rightarrow> (exn \<Rightarrow> 'a prog) \<Rightarrow> 'a prog" where
  "try_except m catches handler w =
     (case m w of
        (Inl e, w1) \<Rightarrow> if catches e then handler e w1 else (Inl e, w1)
      | (Inr v, w1) \<Rightarrow> (Inr v, w1))"

definition logger_info :: "string \<Rightarrow> unit prog" where
  "logger_info msg w = (Inr (), w\<lparr>logs := logs w @ [Info msg]\<rparr>)"

definition logger_error :: "string \<Rightarrow> exn \<Rightarrow> unit prog" where
  "logger_error msg e w = (Inr (), w\<lparr>logs := logs w @ [Error msg e]\<rparr>)"

subsection \<open>The API server\<close>

text \<open>
  The Kubernetes API server is not part of the repository. It is modelled as a store of
  objects addressed by plural, namespace and the name in the body's metadata: a get of a
  missing object answers 404, a create of an existing one 409, a create without a name
  422, a delete of a missing object 404. A list answers the bodies of the namespace in
  store order.
\<close>

definition name_of :: "yaml \<Rightarrow> string option" where
  "name_of body =
     (case get_in body [''metadata'', ''name''] of Inr (YStr n) \<Rightarrow> Some n | _ \<Rightarrow> None)"

definition is_obj :: "string \<Rightarrow> string \<Rightarrow> string \<Rightarrow> string \<times> string \<times> yaml \<Rightarrow> bool" where
  "is_obj plural namespace name obj =
     (fst obj = plural \<and> fst (snd obj) = namespace \<and> name_of (snd (snd obj)) = Some name)"

definition exists_obj :: "world \<Rightarrow> string \<Rightarrow> string \<Rightarrow> string \<Rightarrow> bool" where
  "exists_obj w plural namespace name =
     (find (is_obj plural namespace name) (objects w) \<noteq> None)"

definition get_server :: "string \<Rightarrow> string \<Rightarrow> string \<Rightarrow> yaml prog" where
  "get_server plural namespace name w =
     (case find (is_obj plural namespace name) (objects w) of
        Some obj \<Rightarrow> (Inr (snd (snd obj)), w)
      | None \<Rightarrow> (Inl (ApiException 404), w))"

definition create_server :: "string \<Rightarrow> string \<Rightarrow> yaml \<Rightarrow> yaml prog" where
  "create_server plural namespace body w =
     (case name_of body of
        None \<Rightarrow> (Inl (ApiException 422), w)
      | Some name \<Rightarrow>
          if exists_obj w plural namespace name then (Inl (ApiException 409), w)
          else (Inr body, w\<lparr>objects := objects w @ [(plural, namespace, body)]\<rparr>))"

definition list_server :: "string \<Rightarrow> string \<Rightarrow> yaml prog" where
  "list_server plural namespace w =
     (Inr (YMap [(''items'',
        YList (map (\<lambda>obj. snd (snd obj))
          (filter (\<lambda>obj. fst obj = plural \<and> fst (snd obj) = namespace) (objects w))))]), w)"

definition delete_server :: "string \<Rightarrow> string \<Rightarrow> string \<Rightarrow> yaml prog" where
  "delete_server plural namespace name w =
     (if exists_obj w plural namespace name
      then (Inr (YMap []),
            w\<lparr>objects := filter (\<lambda>obj. \<not> is_obj plural namespace name obj) (objects w)\<rparr>)
      else (Inl (ApiException 404), w))"

definition read_ingress_server :: "string \<Rightarrow> string \<Rightarrow> V1Ingress prog" where
  "read_ingress_server name namespace w =
     (case ingresses w (namespace, name) of
        Some ing \<Rightarrow> (Inr ing, w)
      | None \<Rightarrow> (Inl (ApiException 404), w))"

definition TARGET_KEY :: string where
  "TARGET_KEY = ''external-dns.alpha.kubernetes.io/target''"

definition ENABLED_KEY :: string where
  "ENABLED_KEY = ''cloudfront.aws.k8s.io/enabled''"

definition patch_ingress_server :: "string \<Rightarrow> string \<Rightarrow> string option \<Rightarrow> unit prog" where
  "patch_ingress_server name namespace target w =
     (case ingresses w (namespace, name) of
        Some ing \<Rightarrow>
          (Inr (),
           w\<lparr>ingresses := (ingresses w)((namespace, name) \<mapsto>
                ing\<lparr>annotations := (annotations ing)(TARGET_KEY := target)\<rparr>)\<rparr>)
      | None \<Rightarrow> (Inl (ApiException 404), w))"

text \<open>Issuing a call: it is recorded, then it fails with the fault chosen for it or is
  answered by the server.\<close>

definition issue :: "env \<Rightarrow> api_call \<Rightarrow> 'a prog \<Rightarrow> 'a prog" where
  "issue e c server w =
     (let w1 = w\<lparr>trace := trace w @ [c]\<rparr>
      in case faults e (length (trace w)) c of
           Some x \<Rightarrow> (Inl x, w1)
         | None \<Rightarrow> server w1)"

subsection \<open>The client methods\<close>

text \<open>
  The client is modelled for string arguments. It refuses a namespace or a name that is
  None before any request is sent; the model refuses every argument that is not a string
  in the same way.
\<close>

definition get_namespaced_custom_object :: "env \<Rightarrow> yaml \<Rightarrow> string \<Rightarrow> yaml \<Rightarrow> yaml prog" where
  "get_namespaced_custom_object e namespace plural name =
     (case (namespace, name) of
        (YStr ns, YStr n) \<Rightarrow> issue e (GetObj plural ns n) (get_server plural ns n)
      | _ \<Rightarrow> lift (Inl ApiValueError))"

definition create_namespaced_custom_object :: "env \<Rightarrow> yaml \<Rightarrow> string \<Rightarrow> yaml \<Rightarrow> yaml prog" where
  "create_namespaced_custom_object e namespace plural body =
     (case namespace of
        YStr ns \<Rightarrow> issue e (CreateObj plural ns body) (create_server plural ns body)
      | _ \<Rightarrow> lift (Inl ApiValueError))"

definition list_namespaced_custom_object :: "env \<Rightarrow> string \<Rightarrow> string \<Rightarrow> yaml prog" where
  "list_namespaced_custom_object e namespace plural =
     issue e (ListObj plural namespace) (list_server plural namespace)"

definition delete_namespaced_custom_object :: "env \<Rightarrow> string \<Rightarrow> string \<Rightarrow> yaml \<Rightarrow> yaml prog" where
  "delete_namespaced_custom_object e namespace plural name =
     (case name of
        YStr n \<Rightarrow> issue e (DeleteObj plural namespace n) (delete_server plural namespace n)
      | _ \<Rightarrow> lift (Inl ApiValueError))"

definition read_namespaced_ingress :: "env \<Rightarrow> string \<Rightarrow> string \<Rightarrow> V1Ingress prog" where
  "read_namespaced_ingress e name namespace =
     issue e (ReadIngress name namespace) (read_ingress_server name namespace)"

definition patch_namespaced_ingress :: "env \<Rightarrow> string \<Rightarrow> string \<Rightarrow> string option \<Rightarrow> unit prog" where
  "patch_namespaced_ingress e name namespace target =
     issue e (PatchIngress name namespace target) (patch_ingress_server name namespace target)"

section \<open>The controller\<close>

definition create_or_update_crd :: "env \<Rightarrow> yaml \<Rightarrow> unit prog" where
  "create_or_update_crd e doc =
     seq (lift (py_get doc ''kind'' YNull)) (\<lambda>kind.
     seq (lift (plural_get kind)) (\<lambda>plural.
     seq (lift (get_in doc [''metadata'', ''name''])) (\<lambda>name.
     seq (lift (get_in doc [''metadata'', ''namespace''])) (\<lambda>namespace.
       case plural of
         None \<Rightarrow> ret ()
       | Some pl \<Rightarrow>
           try_except
             (seq (get_namespaced_custom_object e namespace pl name) (\<lambda>_.
                logger_info (py_format (fmt e) kind @ '' '' @ py_format (fmt e) name
                             @ '' already exists'')))
             is_ApiException
             (\<lambda>x. if x \<noteq> ApiException 404
                  then logger_error (''Error checking '' @ py_format (fmt e) kind @ '': '') x
                  else
                    try_except
                      (seq (create_namespaced_custom_object e namespace pl doc) (\<lambda>_.
                         logger_info (''Created '' @ py_format (fmt e) kind @ '' ''
                                      @ py_format (fmt e) name)))
                      is_ApiException
                      (\<lambda>x2. logger_error (''Failed to create '' @ py_format (fmt e) kind
                                           @ '' '' @ py_format (fmt e) name @ '': '') x2))))))"

text \<open>
  The loop \<open>for doc in docs: create_or_update_crd(doc, logger)\<close>. The source keeps it
  commented out in \<open>reconcile_ingress\<close> (lines 150 and 151), so \<open>reconcile_ingress\<close>
  below does not call it.
\<close>

fun create_or_update_all :: "env \<Rightarrow> yaml list \<Rightarrow> unit prog" where
  "create_or_update_all e [] = ret ()"
| "create_or_update_all e (doc # docs) =
     seq (create_or_update_crd e doc) (\<lambda>_. create_or_update_all e docs)"

text \<open>The inner loop of \<open>remove_crds_and_patch\<close> over the listed items.\<close>

fun delete_items :: "env \<Rightarrow> string \<Rightarrow> string \<Rightarrow> string \<Rightarrow> string \<Rightarrow> yaml list \<Rightarrow> unit prog" where
  "delete_items e kind plural namespace name_prefix [] = ret ()"
| "delete_items e kind plural namespace name_prefix (item # items) =
     seq (lift (get_in item [''metadata'', ''name''])) (\<lambda>name.
     seq (lift (py_startswith name name_prefix)) (\<lambda>hit.
     seq (if hit
          then seq (delete_namespaced_custom_object e namespace plural name) (\<lambda>_.
                 logger_info (''Deleted '' @ kind @ '' '' @ py_format (fmt e) name))
          else ret ()) (\<lambda>_.
       delete_items e kind plural namespace name_prefix items)))"

text \<open>The body of the outer loop for one entry of PLURAL_MAP, with its own try.\<close>

definition remove_kind :: "env \<Rightarrow> string \<Rightarrow> string \<Rightarrow> string \<times> string \<Rightarrow> unit prog" where
  "remove_kind e namespace ingress_name kp =
     try_except
       (seq (list_namespaced_custom_object e namespace (snd kp)) (\<lambda>objs.
        seq (lift (py_get objs ''items'' (YList []))) (\<lambda>its.
        seq (lift (py_iter its)) (\<lambda>items.
          delete_items e (fst kp) (snd kp) namespace
            (name_prefix_of namespace ingress_name) items))))
       (\<lambda>x. True)
       (\<lambda>x. logger_error (''Error deleting '' @ fst kp @ '' objects: '') x)"

fun remove_kinds :: "env \<Rightarrow> string \<Rightarrow> string \<Rightarrow> (string \<times> string) list \<Rightarrow> unit prog" where
  "remove_kinds e namespace ingress_name [] = ret ()"
| "remove_kinds e namespace ingress_name (kp # kps) =
     seq (remove_kind e namespace ingress_name kp) (\<lambda>_.
       remove_kinds e namespace ingress_name kps)"

definition remove_crds_and_patch :: "env \<Rightarrow> string \<Rightarrow> string \<Rightarrow> unit prog" where
  "remove_crds_and_patch e namespace ingress_name =
     seq (remove_kinds e namespace ingress_name PLURAL_MAP) (\<lambda>_.
       try_except
         (seq (patch_namespaced_ingress e ingress_name namespace None) (\<lambda>_.
            logger_info (''Removed external-dns.target from Ingress '' @ ingress_name)))
         (\<lambda>x. True)
         (\<lambda>x. logger_error ''Failed to remove external-dns annotation: '' x))"

text \<open>\<open>ingress.status.load_balancer.ingress[0].hostname\<close>.\<close>

definition alb_hostname :: "V1Ingress \<Rightarrow> exn + string option" where
  "alb_hostname ing =
     (case status ing of
        None \<Rightarrow> Inl AttributeError
      | Some st \<Rightarrow>
          (case load_balancer st of
             None \<Rightarrow> Inl AttributeError
           | Some lb \<Rightarrow>
               (case ingress lb of
                  None \<Rightarrow> Inl TypeError
                | Some [] \<Rightarrow> Inl IndexError
                | Some (x # xs) \<Rightarrow> Inr (hostname x))))"

text \<open>\<open>annotations.get("cloudfront.aws.k8s.io/enabled", "false").lower() == "true"\<close>.\<close>

definition cf_enabled :: "(string \<rightharpoonup> string) \<Rightarrow> bool" where
  "cf_enabled anns =
     (py_lower (case anns ENABLED_KEY of None \<Rightarrow> ''false'' | Some v \<Rightarrow> v) = ''true'')"

definition not_set :: "(string \<rightharpoonup> string) \<Rightarrow> string \<Rightarrow> string" where
  "not_set anns k = (case anns k of None \<Rightarrow> ''not set'' | Some v \<Rightarrow> v)"

text \<open>
  One tick for one Ingress. \<open>anns\<close> is \<open>meta.get("annotations", {})\<close>. On the enabled
  branch the template is materialized and the result is dropped: the two calls that
  would use it are commented out in the source.
\<close>

definition reconcile_ingress ::
  "env \<Rightarrow> (string \<rightharpoonup> string) \<Rightarrow> string \<Rightarrow> string \<Rightarrow> unit prog" where
  "reconcile_ingress e anns namespace name =
     seq (logger_info (''Processing Ingress: '' @ name @ '' in namespace: '' @ namespace)) (\<lambda>_.
     seq (logger_info (''Annotations: cloudfront.aws.k8s.io/enabled='' @ not_set anns ENABLED_KEY
                       @ '', external-dns.alpha.kubernetes.io/target='' @ not_set anns TARGET_KEY)) (\<lambda>_.
       if cf_enabled anns
       then
         try_except
           (seq (read_namespaced_ingress e name namespace) (\<lambda>ing.
            seq (lift (alb_hostname ing)) (\<lambda>alb_dns.
            seq (logger_info (''Retrieved LoadBalancer hostname: ''
                              @ (case alb_dns of None \<Rightarrow> ''None'' | Some h \<Rightarrow> h))) (\<lambda>_.
            seq (lift (load_and_patch_template (fmt e) (template e) namespace name
                         (opt_yaml alb_dns))) (\<lambda>docs.
              ret ())))))
           (\<lambda>x. True)
           (\<lambda>x. logger_error (''Failed to retrieve LoadBalancer hostname for Ingress ''
                               @ name @ '': '') x)
       else remove_crds_and_patch e namespace name))"

section \<open>Notions used to state the properties\<close>

text \<open>The first entry of \<open>spec.distributionConfig.origins.items\<close>.\<close>

definition first_origin :: "yaml \<Rightarrow> exn + yaml" where
  "first_origin doc =
     bind (get_in doc [''spec'', ''distributionConfig'', ''origins'', ''items'']) py_getitem0"

text \<open>The name a template document carries, as it is printed, or the placeholder when
  the document has none.\<close>

definition original_name :: "(yaml \<Rightarrow> string) \<Rightarrow> yaml \<Rightarrow> string" where
  "original_name fm doc =
     (case get_in doc [''metadata'', ''name''] of
        Inr v \<Rightarrow> py_format fm v
      | Inl _ \<Rightarrow> ''cf-object'')"

text \<open>The kind of the document is a key of PLURAL_MAP.\<close>

definition kind_known :: "yaml \<Rightarrow> bool" where
  "kind_known doc = (bind (py_get doc ''kind'' YNull) in_PLURAL_MAP = Inr True)"

text \<open>
  Equality of strings up to the case of the letters A to Z, stated without \<open>lower\<close>: the
  strings have the same length, and at each position the characters are equal or are the
  capital and the small form of one letter.
\<close>

definition ci_char :: "char \<Rightarrow> char \<Rightarrow> bool" where
  "ci_char a b =
     (a = b \<or>
      (97 \<le> (of_char b :: nat) \<and> (of_char b :: nat) \<le> 122 \<and> (of_char a :: nat) + 32 = of_char b) \<or>
      (97 \<le> (of_char a :: nat) \<and> (of_char a :: nat) \<le> 122 \<and> (of_char b :: nat) + 32 = of_char a))"

definition equals_ignoring_case :: "string \<Rightarrow> string \<Rightarrow> bool" where
  "equals_ignoring_case s t = list_all2 ci_char s t"

section \<open>A sample template and cluster\<close>

definition ex_distribution :: yaml where
  "ex_distribution =
     YMap [(''kind'', YStr ''Distribution''),
           (''metadata'', YMap [(''name'', YStr ''distribution'')]),
           (''spec'', YMap [(''distributionConfig'', YMap
              [(''origins'', YMap [(''items'', YList [YMap [(''id'', YStr ''x'')]])]),
               (''defaultCacheBehavior'', YMap [(''targetOriginId'', YStr ''x'')])])])]"

definition ex_function :: yaml where
  "ex_function = YMap [(''kind'', YStr ''Function''), (''spec'', YMap [])]"

definition ex_unknown :: yaml where
  "ex_unknown = YMap [(''kind'', YStr ''Unknown''), (''metadata'', YMap [(''name'', YStr ''note'')])]"

text \<open>A document of an unknown kind that has a name and a namespace, a document whose
  kind is a list, and the empty document, which the YAML parser gives as None.\<close>

definition ex_unknown_full :: yaml where
  "ex_unknown_full =
     YMap [(''kind'', YStr ''Unknown''),
           (''metadata'', YMap [(''name'', YStr ''note''), (''namespace'', YStr ''ns'')])]"

definition ex_unhashable :: yaml where
  "ex_unhashable = YMap [(''kind'', YList [YStr ''Distribution''])]"

definition ex_empty_document :: yaml where
  "ex_empty_document = YNull"

definition ex_template :: "yaml list" where
  "ex_template = [ex_distribution, ex_unknown, ex_function]"

definition ex_fmt :: "yaml \<Rightarrow> string" where
  "ex_fmt v = ''?''"

text \<open>What the sample template gives for namespace \<open>ns\<close>, Ingress \<open>app\<close> and the
  hostname \<open>alb.example.com\<close>.\<close>

definition ex_out_distribution :: yaml where
  "ex_out_distribution =
     YMap [(''kind'', YStr ''Distribution''),
           (''metadata'', YMap [(''name'', YStr ''ns-app-distribution''), (''namespace'', YStr ''ns'')]),
           (''spec'', YMap [(''distributionConfig'', YMap
              [(''origins'', YMap [(''items'', YList [YMap [(''id'', YStr ''ns-app-origin''),
                   (''domainName'', YStr ''alb.example.com'')]])]),
               (''defaultCacheBehavior'', YMap [(''targetOriginId'', YStr ''ns-app-origin'')]),
               (''comment'', YStr ''CloudFront for ALB ns-app'')])])]"

definition ex_out_function :: yaml where
  "ex_out_function =
     YMap [(''kind'', YStr ''Function''), (''spec'', YMap []),
           (''metadata'', YMap [(''namespace'', YStr ''ns''), (''name'', YStr ''ns-app-cf-object'')])]"

definition ex_ingress :: V1Ingress where
  "ex_ingress =
     \<lparr>annotations = [ENABLED_KEY \<mapsto> ''true''],
      status = Some \<lparr>load_balancer = Some \<lparr>ingress =
        Some [\<lparr>hostname = Some ''alb.example.com''\<rparr>]\<rparr>\<rparr>\<rparr>"

definition no_faults :: "nat \<Rightarrow> api_call \<Rightarrow> exn option" where
  "no_faults n c = None"

definition ex_env :: env where
  "ex_env = \<lparr>fmt = ex_fmt, template = Inr ex_template, faults = no_faults\<rparr>"

definition ex_world :: world where
  "ex_world =
     \<lparr>objects = [], ingresses = [(''ns'', ''app'') \<mapsto> ex_ingress], trace = [], logs = []\<rparr>"

text \<open>An environment in which every call fails.\<close>

definition ex_all_fail :: env where
  "ex_all_fail = \<lparr>fmt = ex_fmt, template = Inr ex_template,
                   faults = (\<lambda>n c. Some (ApiException 500))\<rparr>"

section \<open>Notions used in the proofs about calls\<close>

text \<open>A program issues only calls that satisfy \<open>P\<close>, whatever the faults.\<close>

definition is_list_or_delete :: "api_call \<Rightarrow> bool" where
  "is_list_or_delete c = (case c of ListObj _ _ \<Rightarrow> True | DeleteObj _ _ _ \<Rightarrow> True | _ \<Rightarrow> False)"

definition only_calls :: "(api_call \<Rightarrow> bool) \<Rightarrow> 'a prog \<Rightarrow> bool" where
  "only_calls P m = (\<forall>w. \<exists>cs. trace (snd (m w)) = trace w @ cs \<and> list_all P cs)"

section \<open>Notions used to state the teardown\<close>

text \<open>The objects the disabled path looks for under one plural.\<close>

definition doomed :: "string \<Rightarrow> string \<Rightarrow> string \<Rightarrow> string \<times> string \<times> yaml \<Rightarrow> bool" where
  "doomed plural namespace name_prefix obj =
     (fst obj = plural \<and> fst (snd obj) = namespace \<and>
      (case name_of (snd (snd obj)) of None \<Rightarrow> False | Some n \<Rightarrow> startswith n name_prefix))"

text \<open>Their names, in store order.\<close>

definition doomed_names :: "string \<Rightarrow> string \<Rightarrow> string \<Rightarrow> (string \<times> string \<times> yaml) list \<Rightarrow> string list" where
  "doomed_names plural namespace name_prefix objs =
     map (\<lambda>obj. case name_of (snd (snd obj)) of None \<Rightarrow> [] | Some n \<Rightarrow> n)
       (filter (doomed plural namespace name_prefix) objs)"

definition obj_key :: "string \<times> string \<times> yaml \<Rightarrow> string \<times> string \<times> string option" where
  "obj_key obj = (fst obj, fst (snd obj), name_of (snd (snd obj)))"

text \<open>What the API server guarantees of its store: every object has a name, and no two
  objects share plural, namespace and name.\<close>

definition store_wf :: "(string \<times> string \<times> yaml) list \<Rightarrow> bool" where
  "store_wf objs =
     (list_all (\<lambda>obj. name_of (snd (snd obj)) \<noteq> None) objs \<and> distinct (map obj_key objs))"

text \<open>No call that names the plural ever fails.\<close>

definition plural_of_call :: "api_call \<Rightarrow> string option" where
  "plural_of_call c =
     (case c of
        GetObj pl _ _ \<Rightarrow> Some pl
      | CreateObj pl _ _ \<Rightarrow> Some pl
      | ListObj pl _ \<Rightarrow> Some pl
      | DeleteObj pl _ _ \<Rightarrow> Some pl
      | _ \<Rightarrow> None)"

definition quiet :: "env \<Rightarrow> string \<Rightarrow> bool" where
  "quiet e plural = (\<forall>n c. plural_of_call c = Some plural \<longrightarrow> faults e n c = None)"

definition only_deletes :: "(string \<times> string \<times> yaml \<Rightarrow> bool) \<Rightarrow> 'a prog \<Rightarrow> bool" where
  "only_deletes M m =
     (\<forall>w. \<exists>keep. objects (snd (m w)) = filter keep (objects w) \<and> (\<forall>obj. \<not> M obj \<longrightarrow> keep obj))"

text \<open>The objects the disabled path looks for: a plural of the registry, the namespace of the
  Ingress, and a name that starts with \<open>{namespace}-{ingress_name}-\<close>.\<close>

definition to_delete :: "string \<Rightarrow> string \<Rightarrow> string \<times> string \<times> yaml \<Rightarrow> bool" where
  "to_delete namespace ingress_name obj =
     list_ex (\<lambda>kp. doomed (snd kp) namespace (namespace @ ''-'' @ ingress_name @ ''-'') obj) PLURAL_MAP"

text \<open>The calls of a teardown in which nothing fails: for each entry of PLURAL_MAP in
  order one list call and one delete call for each object to delete, then the patch of
  the Ingress.\<close>

definition teardown_calls :: "string \<Rightarrow> string \<Rightarrow> (string \<times> string \<times> yaml) list \<Rightarrow> api_call list" where
  "teardown_calls namespace ingress_name objs =
     concat (map (\<lambda>kp. ListObj (snd kp) namespace
                # map (DeleteObj (snd kp) namespace)
                    (doomed_names (snd kp) namespace (namespace @ ''-'' @ ingress_name @ ''-'') objs))
             PLURAL_MAP)
     @ [PatchIngress ingress_name namespace None]"

text \<open>The Ingresses after the target annotation of one of them has been removed.\<close>

definition clear_target ::
  "string \<Rightarrow> string \<Rightarrow> (string \<times> string \<rightharpoonup> V1Ingress) \<Rightarrow> (string \<times> string \<rightharpoonup> V1Ingress)" where
  "clear_target namespace ingress_name ings =
     (case ings (namespace, ingress_name) of
        None \<Rightarrow> ings
      | Some ing \<Rightarrow>
          ings((namespace, ingress_name) \<mapsto> ing\<lparr>annotations := (annotations ing)(TARGET_KEY := None)\<rparr>))"

section \<open>Sample clusters for the teardown\<close>

definition named :: "string \<Rightarrow> yaml" where
  "named n = YMap [(''metadata'', YMap [(''name'', YStr n)])]"

definition ex_ingress_off :: V1Ingress where
  "ex_ingress_off =
     \<lparr>annotations = [ENABLED_KEY \<mapsto> ''false'', TARGET_KEY \<mapsto> ''d111.cloudfront.net''],
      status = None\<rparr>"

definition ex_cluster :: world where
  "ex_cluster =
     \<lparr>objects = [(''distributions'', ''ns'', named ''ns-app-distribution''),
                 (''distributions'', ''ns'', named ''ns-other-distribution''),
                 (''functions'', ''ns'', named ''ns-app-fn''),
                 (''distributions'', ''prod'', named ''ns-app-distribution'')],
      ingresses = [(''ns'', ''app'') \<mapsto> ex_ingress_off], trace = [], logs = []\<rparr>"



section \<open>Notions used to state the enabled path\<close>

text \<open>The plural, namespace and name under which \<open>create_or_update_crd\<close> addresses a
  document, when it has them.\<close>

definition resource_of :: "yaml \<Rightarrow> (string \<times> string \<times> string) option" where
  "resource_of d =
     (case (bind (py_get d ''kind'' YNull) plural_get,
            get_in d [''metadata'', ''namespace''],
            get_in d [''metadata'', ''name'']) of
        (Inr (Some pl), Inr (YStr ns), Inr (YStr n)) \<Rightarrow> Some (pl, ns, n)
      | _ \<Rightarrow> None)"

definition kind_of :: "yaml \<Rightarrow> string" where
  "kind_of d = (case py_get d ''kind'' YNull of Inr (YStr k) \<Rightarrow> k | _ \<Rightarrow> [])"

definition get_call :: "string \<times> string \<times> string \<Rightarrow> api_call" where
  "get_call r = GetObj (fst r) (fst (snd r)) (snd (snd r))"

definition present :: "world \<Rightarrow> string \<times> string \<times> string \<Rightarrow> bool" where
  "present w r = exists_obj w (fst r) (fst (snd r)) (snd (snd r))"

text \<open>An Ingress whose load balancer has an address but no hostname.\<close>

definition ex_ingress_ip :: V1Ingress where
  "ex_ingress_ip =
     \<lparr>annotations = [ENABLED_KEY \<mapsto> ''true''],
      status = Some \<lparr>load_balancer = Some \<lparr>ingress = Some [\<lparr>hostname = None\<rparr>]\<rparr>\<rparr>\<rparr>"

definition ex_world_ip :: world where
  "ex_world_ip =
     \<lparr>objects = [], ingresses = [(''ns'', ''app'') \<mapsto> ex_ingress_ip], trace = [], logs = []\<rparr>"

section \<open>Properties of the materializer\<close>

lemma bind_Inr [simp]: "bind (Inr v) f = f v"
  by (simp add: bind_def)

lemma bind_Inl [simp]: "bind (Inl e) f = Inl e"
  by (simp add: bind_def)

lemma bind_Inr_right [simp]: "bind r Inr = r"
  by (cases r) simp_all

lemma bind_eq_Inr: "bind r f = Inr v \<longleftrightarrow> (\<exists>x. r = Inr x \<and> f x = Inr v)"
  by (cases r) simp_all

lemma dict_get_Nil [simp]: "dict_get [] k = None"
  by (simp add: dict_get_def)

lemma dict_get_Cons [simp]: "dict_get ((k, v) # m) k' = (if k' = k then Some v else dict_get m k')"
  by (simp add: dict_get_def)

lemma dict_get_set: "dict_get (dict_set m k v) k' = (if k' = k then Some v else dict_get m k')"
  by (induction m) auto

lemma py_getitem_setitem:
  "py_setitem d k v = Inr d' \<Longrightarrow> py_getitem d' k' = (if k' = k then Inr v else py_getitem d k')"
  by (cases d) (auto simp: py_setitem_def py_getitem_def dict_get_set)

lemma py_setitem_Inr: "py_setitem d k v = Inr d' \<longleftrightarrow> (\<exists>m. d = YMap m \<and> d' = YMap (dict_set m k v))"
  by (cases d) (auto simp: py_setitem_def)

lemma update_in_get_in:
  "update_in d p f = Inr d' \<Longrightarrow> \<exists>v v'. get_in d p = Inr v \<and> f v = Inr v' \<and> get_in d' p = Inr v'"
proof (induction p arbitrary: d d')
  case Nil
  then show ?case by simp
next
  case (Cons k ks)
  from Cons.prems obtain c c' where c: "py_getitem d k = Inr c"
    and u: "update_in c ks f = Inr c'" and s: "py_setitem d k c' = Inr d'"
    by (auto simp: bind_eq_Inr)
  from Cons.IH [OF u] obtain v v' where "get_in c ks = Inr v" "f v = Inr v'" "get_in c' ks = Inr v'"
    by blast
  then show ?case using c py_getitem_setitem [OF s, of k] by simp
qed

lemma update_in_frame:
  "update_in d (pre @ k # ks) f = Inr d' \<Longrightarrow> k' \<noteq> k \<Longrightarrow>
   get_in d' (pre @ k' # ks') = get_in d (pre @ k' # ks')"
proof (induction pre arbitrary: d d')
  case Nil
  then obtain c' where s: "py_setitem d k c' = Inr d'" by (auto simp: bind_eq_Inr)
  show ?case using py_getitem_setitem [OF s, of k'] Nil.prems(2) by simp
next
  case (Cons a pre)
  from Cons.prems(1) obtain c c' where c: "py_getitem d a = Inr c"
    and u: "update_in c (pre @ k # ks) f = Inr c'" and s: "py_setitem d a c' = Inr d'"
    by (auto simp: bind_eq_Inr)
  from Cons.IH [OF u Cons.prems(2)] show ?case
    using c py_getitem_setitem [OF s, of a] by simp
qed

lemma py_setitem0_Inr:
  "py_setitem0 items k v = Inr items' \<Longrightarrow>
   \<exists>m xs. items = YList (YMap m # xs) \<and> items' = YList (YMap (dict_set m k v) # xs)"
  by (auto simp: py_setitem0_def py_getitem0_def bind_eq_Inr py_setitem_Inr
           split: yaml.splits list.splits)

lemma items_path:
  "update_in d [''spec'', ''distributionConfig'', ''defaultCacheBehavior''] f = Inr d' \<Longrightarrow>
   get_in d' [''spec'', ''distributionConfig'', ''origins'', ''items'']
     = get_in d [''spec'', ''distributionConfig'', ''origins'', ''items'']"
  using update_in_frame [of d "[''spec'', ''distributionConfig'']" "''defaultCacheBehavior''" "[]"
          f d' "''origins''" "[''items'']"]
  by (simp del: update_in.simps get_in.simps)

lemma patch_distribution_fields:
  assumes "patch_distribution ns nm dns doc = Inr d"
  shows "bind (first_origin d) (\<lambda>x. py_getitem x ''id'') = Inr (YStr (origin_id_of ns nm))"
    and "bind (first_origin d) (\<lambda>x. py_getitem x ''domainName'') = Inr dns"
    and "get_in d [''spec'', ''distributionConfig'', ''defaultCacheBehavior'', ''targetOriginId'']
           = Inr (YStr (origin_id_of ns nm))"
proof -
  from assms obtain d1 d2 d3 where
    u2: "update_in d1 [''spec'', ''distributionConfig'', ''origins'', ''items'']
           (\<lambda>items. py_setitem0 items ''id'' (YStr (origin_id_of ns nm))) = Inr d2" and
    u3: "update_in d2 [''spec'', ''distributionConfig'', ''origins'', ''items'']
           (\<lambda>items. py_setitem0 items ''domainName'' dns) = Inr d3" and
    u4: "update_in d3 [''spec'', ''distributionConfig'', ''defaultCacheBehavior'']
           (\<lambda>dcb. py_setitem dcb ''targetOriginId'' (YStr (origin_id_of ns nm))) = Inr d"
    unfolding patch_distribution_def bind_eq_Inr by blast
  from update_in_get_in [OF u2] obtain m2 xs2 where
    g2: "get_in d2 [''spec'', ''distributionConfig'', ''origins'', ''items'']
           = Inr (YList (YMap (dict_set m2 ''id'' (YStr (origin_id_of ns nm))) # xs2))"
    using py_setitem0_Inr by blast
  from update_in_get_in [OF u3] obtain v3 v3' where
    a3: "get_in d2 [''spec'', ''distributionConfig'', ''origins'', ''items''] = Inr v3"
        "py_setitem0 v3 ''domainName'' dns = Inr v3'"
        "get_in d3 [''spec'', ''distributionConfig'', ''origins'', ''items''] = Inr v3'"
    by blast
  define m3 where "m3 = dict_set m2 ''id'' (YStr (origin_id_of ns nm))"
  from a3(1) g2 have "v3 = YList (YMap m3 # xs2)" by (simp add: m3_def)
  with py_setitem0_Inr [OF a3(2)] have "v3' = YList (YMap (dict_set m3 ''domainName'' dns) # xs2)"
    by auto
  with a3(3) have
    g3: "get_in d3 [''spec'', ''distributionConfig'', ''origins'', ''items'']
           = Inr (YList (YMap (dict_set m3 ''domainName'' dns) # xs2))"
    by simp
  have g4: "get_in d [''spec'', ''distributionConfig'', ''origins'', ''items'']
          = get_in d3 [''spec'', ''distributionConfig'', ''origins'', ''items'']"
    using items_path [OF u4] by simp
  show "bind (first_origin d) (\<lambda>x. py_getitem x ''id'') = Inr (YStr (origin_id_of ns nm))"
    unfolding first_origin_def g4 g3 m3_def
    by (simp add: py_getitem0_def py_getitem_def dict_get_set)
  show "bind (first_origin d) (\<lambda>x. py_getitem x ''domainName'') = Inr dns"
    unfolding first_origin_def g4 g3 m3_def
    by (simp add: py_getitem0_def py_getitem_def dict_get_set)
  from update_in_get_in [OF u4] obtain v v' where
    "py_setitem v ''targetOriginId'' (YStr (origin_id_of ns nm)) = Inr v'"
    "get_in d [''spec'', ''distributionConfig'', ''defaultCacheBehavior''] = Inr v'"
    by blast
  then have "bind (get_in d [''spec'', ''distributionConfig'', ''defaultCacheBehavior''])
               (\<lambda>c. py_getitem c ''targetOriginId'') = Inr (YStr (origin_id_of ns nm))"
    using py_getitem_setitem [of v "''targetOriginId''" _ v' "''targetOriginId''"] by simp
  then show "get_in d [''spec'', ''distributionConfig'', ''defaultCacheBehavior'', ''targetOriginId'']
           = Inr (YStr (origin_id_of ns nm))"
    by (auto simp: bind_eq_Inr)
qed

lemma py_get_setitem:
  "py_setitem d k v = Inr d' \<Longrightarrow> py_get d' k' x = (if k' = k then Inr v else py_get d k' x)"
  by (cases d) (auto simp: py_setitem_def py_get_def dict_get_set)

lemma update_in_top_frame:
  assumes "update_in d (k # ks) f = Inr d'" "k' \<noteq> k"
  shows "py_getitem d' k' = py_getitem d k'" and "py_get d' k' x = py_get d k' x"
proof -
  from assms(1) obtain c' where s: "py_setitem d k c' = Inr d'" by (auto simp: bind_eq_Inr)
  show "py_getitem d' k' = py_getitem d k'" using py_getitem_setitem [OF s, of k'] assms(2) by simp
  show "py_get d' k' x = py_get d k' x" using py_get_setitem [OF s, of k'] assms(2) by simp
qed

lemma patch_distribution_frame:
  assumes "patch_distribution ns nm dns doc = Inr d" "k' \<noteq> ''spec''"
  shows "py_getitem d k' = py_getitem doc k'" and "py_get d k' x = py_get doc k' x"
proof -
  from assms(1) obtain d1 d2 d3 where
    u1: "update_in doc [''spec'', ''distributionConfig'']
           (\<lambda>dc. py_setitem dc ''comment''
              (YStr (''CloudFront for ALB '' @ ns @ ''-'' @ nm))) = Inr d1" and
    u2: "update_in d1 [''spec'', ''distributionConfig'', ''origins'', ''items'']
           (\<lambda>items. py_setitem0 items ''id'' (YStr (origin_id_of ns nm))) = Inr d2" and
    u3: "update_in d2 [''spec'', ''distributionConfig'', ''origins'', ''items'']
           (\<lambda>items. py_setitem0 items ''domainName'' dns) = Inr d3" and
    u4: "update_in d3 [''spec'', ''distributionConfig'', ''defaultCacheBehavior'']
           (\<lambda>dcb. py_setitem dcb ''targetOriginId'' (YStr (origin_id_of ns nm))) = Inr d"
    unfolding patch_distribution_def bind_eq_Inr by blast
  show "py_getitem d k' = py_getitem doc k'"
    using update_in_top_frame(1) [OF u1 assms(2)] update_in_top_frame(1) [OF u2 assms(2)]
      update_in_top_frame(1) [OF u3 assms(2)] update_in_top_frame(1) [OF u4 assms(2)]
    by simp
  show "py_get d k' x = py_get doc k' x"
    using update_in_top_frame(2) [OF u1 assms(2)] update_in_top_frame(2) [OF u2 assms(2)]
      update_in_top_frame(2) [OF u3 assms(2)] update_in_top_frame(2) [OF u4 assms(2)]
    by simp
qed

lemma patch_doc_unknown:
  assumes "py_get doc ''kind'' YNull = Inr kind" "plural_get kind = Inr None"
  shows "patch_doc fm ns nm dns doc = Inr None"
proof -
  from assms(1) obtain m where "doc = YMap m" by (cases doc) (auto simp: py_get_def)
  then have "py_get doc ''metadata'' (YMap []) \<noteq> Inl AttributeError \<and>
             (\<exists>v. py_get doc ''metadata'' (YMap []) = Inr v)"
    by (simp add: py_get_def)
  then show ?thesis using assms by (auto simp: patch_doc_def in_PLURAL_MAP_def)
qed

lemma patch_doc_Some:
  assumes "patch_doc fm ns nm dns doc = Inr (Some d)"
  shows "\<exists>k pl. py_get doc ''kind'' YNull = Inr (YStr k) \<and> map_of PLURAL_MAP k = Some pl \<and>
           py_get d ''kind'' YNull = Inr (YStr k) \<and>
           get_in d [''metadata'', ''name'']
             = Inr (YStr (name_prefix_of ns nm @ original_name fm doc)) \<and>
           get_in d [''metadata'', ''namespace''] = Inr (YStr ns) \<and>
           (k = ''Distribution'' \<longrightarrow> (\<exists>doc1. patch_distribution ns nm dns doc1 = Inr d))"
proof -
  from assms obtain kind meta known where
    k: "py_get doc ''kind'' YNull = Inr kind" and
    m: "py_get doc ''metadata'' (YMap []) = Inr meta" and
    kn: "in_PLURAL_MAP kind = Inr known" and
    rest: "(if \<not> known then Inr None
       else
         bind (py_setitem meta ''namespace'' (YStr ns)) (\<lambda>meta1.
         bind (py_get meta1 ''name'' (YStr ''cf-object'')) (\<lambda>base_name.
         bind (py_setitem meta1 ''name''
                 (YStr (name_prefix_of ns nm @ py_format fm base_name))) (\<lambda>meta2.
         bind (py_setitem doc ''metadata'' meta2) (\<lambda>doc1.
         bind (if kind = YStr ''Distribution''
               then patch_distribution ns nm dns doc1
               else Inr doc1) (\<lambda>doc2.
           Inr (Some doc2))))))) = Inr (Some d)"
    unfolding patch_doc_def bind_eq_Inr by blast
  from rest have known: known by (auto split: if_splits)
  with kn obtain k pl where kind: "kind = YStr k" and pl: "map_of PLURAL_MAP k = Some pl"
    by (cases kind) (auto simp: in_PLURAL_MAP_def plural_get_def)
  from rest known obtain meta1 base_name meta2 doc1 where
    s1: "py_setitem meta ''namespace'' (YStr ns) = Inr meta1" and
    b: "py_get meta1 ''name'' (YStr ''cf-object'') = Inr base_name" and
    s2: "py_setitem meta1 ''name'' (YStr (name_prefix_of ns nm @ py_format fm base_name)) = Inr meta2" and
    s3: "py_setitem doc ''metadata'' meta2 = Inr doc1" and
    pd: "(if kind = YStr ''Distribution'' then patch_distribution ns nm dns doc1 else Inr doc1) = Inr d"
    by (auto simp: bind_eq_Inr)
  from s3 obtain dm where dm: "doc = YMap dm" by (auto simp: py_setitem_Inr)
  from s1 obtain mm where mm: "meta = YMap mm" by (auto simp: py_setitem_Inr)
  have on: "original_name fm doc = py_format fm base_name"
    using m b s1 dm mm
    by (auto simp: original_name_def py_get_def py_getitem_def py_setitem_def dict_get_set
             py_format_def split: option.splits)
  have n1: "get_in doc1 [''metadata'', ''name'']
              = Inr (YStr (name_prefix_of ns nm @ original_name fm doc))"
    using py_getitem_setitem [OF s3, of "''metadata''"] py_getitem_setitem [OF s2, of "''name''"] on
    by simp
  have n2: "get_in doc1 [''metadata'', ''namespace''] = Inr (YStr ns)"
    using py_getitem_setitem [OF s3, of "''metadata''"] py_getitem_setitem [OF s2, of "''namespace''"]
      py_getitem_setitem [OF s1, of "''namespace''"]
    by simp
  have k1: "py_get doc1 ''kind'' YNull = Inr (YStr k)"
    using py_get_setitem [OF s3, of "''kind''"] k kind by simp
  show ?thesis
  proof (cases "kind = YStr ''Distribution''")
    case True
    with pd have p: "patch_distribution ns nm dns doc1 = Inr d" by simp
    have "py_getitem d ''metadata'' = py_getitem doc1 ''metadata''"
      by (rule patch_distribution_frame(1) [OF p]) simp
    moreover have "py_get d ''kind'' YNull = py_get doc1 ''kind'' YNull"
      by (rule patch_distribution_frame(2) [OF p]) simp
    ultimately show ?thesis using n1 n2 k1 k kind pl p by auto
  next
    case False
    with pd have "d = doc1" by simp
    then show ?thesis using n1 n2 k1 k kind pl False by auto
  qed
qed

lemma patch_doc_None_unknown:
  "patch_doc fm ns nm dns doc = Inr None \<Longrightarrow> \<not> kind_known doc"
  by (auto simp: patch_doc_def kind_known_def bind_eq_Inr split: if_splits)

lemma patch_doc_Some_known:
  "patch_doc fm ns nm dns doc = Inr (Some d) \<Longrightarrow> kind_known doc"
  using patch_doc_Some [of fm ns nm dns doc d]
  by (auto simp: kind_known_def in_PLURAL_MAP_def plural_get_def)

lemma patch_docs_names:
  "patch_docs fm ns nm dns docs = Inr out \<Longrightarrow>
   map (\<lambda>d. get_in d [''metadata'', ''name'']) out
     = map (\<lambda>doc. Inr (YStr (ns @ ''-'' @ nm @ ''-'' @ original_name fm doc)))
         (filter kind_known docs)"
proof (induction docs arbitrary: out)
  case Nil
  then show ?case by simp
next
  case (Cons doc docs)
  from Cons.prems obtain r out' where r: "patch_doc fm ns nm dns doc = Inr r"
    and o: "patch_docs fm ns nm dns docs = Inr out'"
    and out: "out = (case r of None \<Rightarrow> [] | Some d \<Rightarrow> [d]) @ out'"
    by (auto simp: bind_eq_Inr)
  show ?case
  proof (cases r)
    case None
    then show ?thesis using r out Cons.IH [OF o] patch_doc_None_unknown by simp
  next
    case (Some d)
    with r have "kind_known doc" using patch_doc_Some_known by blast
    moreover from patch_doc_Some [of fm ns nm dns doc d] r Some
    have "get_in d [''metadata'', ''name'']
            = Inr (YStr (ns @ ''-'' @ nm @ ''-'' @ original_name fm doc))"
      by (auto simp: name_prefix_of_def simp del: get_in.simps)
    ultimately show ?thesis using Some out Cons.IH [OF o] by (simp del: get_in.simps)
  qed
qed

lemma patch_docs_member:
  "patch_docs fm ns nm dns docs = Inr out \<Longrightarrow> d \<in> set out \<Longrightarrow>
   \<exists>doc \<in> set docs. patch_doc fm ns nm dns doc = Inr (Some d)"
proof (induction docs arbitrary: out)
  case Nil
  then show ?case by simp
next
  case (Cons doc docs)
  from Cons.prems(1) obtain r out' where r: "patch_doc fm ns nm dns doc = Inr r"
    and o: "patch_docs fm ns nm dns docs = Inr out'"
    and out: "out = (case r of None \<Rightarrow> [] | Some d \<Rightarrow> [d]) @ out'"
    by (auto simp: bind_eq_Inr)
  from Cons.prems(2) out have "r = Some d \<or> d \<in> set out'" by (auto split: option.splits)
  then show ?case using r Cons.IH [OF o] by auto
qed

lemma patch_docs_skip:
  assumes "patch_doc fm ns nm dns doc = Inr None"
  shows "patch_docs fm ns nm dns (pre @ doc # post) = patch_docs fm ns nm dns (pre @ post)"
  using assms by (induction pre) simp_all

lemma PLURAL_MAP_simps [simp]:
  "map_of PLURAL_MAP ''Distribution'' = Some ''distributions''"
  "map_of PLURAL_MAP ''Function'' = Some ''functions''"
  "map_of PLURAL_MAP ''Unknown'' = None"
  by (simp_all add: PLURAL_MAP_def)

lemma ex_materialized:
  "load_and_patch_template ex_fmt (Inr ex_template) ''ns'' ''app'' (YStr ''alb.example.com'')
     = Inr [ex_out_distribution, ex_out_function]"
  by (simp add: load_and_patch_template_def ex_template_def ex_distribution_def ex_unknown_def
      ex_function_def patch_doc_def py_get_def in_PLURAL_MAP_def plural_get_def py_setitem_def
      py_format_def name_prefix_of_def patch_distribution_def py_getitem_def py_setitem0_def
      py_getitem0_def origin_id_of_def ex_out_distribution_def ex_out_function_def)

text \<open>
  C3. Whenever the materializer returns, its output holds one document for each template
  document of a known kind, in template order, and the name of each is exactly
  \<open>{namespace}-{ingress_name}-{original name}\<close>, where the original name is the
  placeholder \<open>cf-object\<close> when the template document has no name. A malformed template
  makes the materializer raise instead of returning.
\<close>

theorem C3_materialized_name:
  assumes "load_and_patch_template fm (Inr docs) ns nm dns = Inr out"
  shows "map (\<lambda>d. get_in d [''metadata'', ''name'']) out
           = map (\<lambda>doc. Inr (YStr (ns @ ''-'' @ nm @ ''-'' @ original_name fm doc)))
               (filter kind_known docs)"
  using assms by (simp add: load_and_patch_template_def patch_docs_names del: get_in.simps)

theorem C3_materialized_name_witness:
  "load_and_patch_template ex_fmt (Inr ex_template) ''ns'' ''app'' (YStr ''alb.example.com'')
     = Inr [ex_out_distribution, ex_out_function]
   \<and> map (\<lambda>d. get_in d [''metadata'', ''name'']) [ex_out_distribution, ex_out_function]
     = [Inr (YStr ''ns-app-distribution''), Inr (YStr ''ns-app-cf-object'')]"
proof -
  have k: "filter kind_known ex_template = [ex_distribution, ex_function]"
    by (simp add: ex_template_def kind_known_def ex_distribution_def ex_unknown_def
        ex_function_def py_get_def in_PLURAL_MAP_def plural_get_def)
  have o: "original_name ex_fmt ex_distribution = ''distribution''"
          "original_name ex_fmt ex_function = ''cf-object''"
    by (simp_all add: original_name_def ex_distribution_def ex_function_def py_getitem_def
        py_format_def)
  show ?thesis
    using C3_materialized_name [OF ex_materialized] ex_materialized
    by (simp add: k o del: get_in.simps)
qed

text \<open>
  C4. In every document of kind Distribution that the materializer returns, the id of the
  first origin and the targetOriginId of the default cache behaviour are both
  \<open>{namespace}-{ingress_name}-origin\<close>, and the domainName of the first origin is the
  backend hostname that was passed in.
\<close>

theorem C4_origin_cross_reference:
  assumes "load_and_patch_template fm tpl ns nm dns = Inr out"
    and "d \<in> set out"
    and "py_get d ''kind'' YNull = Inr (YStr ''Distribution'')"
  shows "bind (first_origin d) (\<lambda>x. py_getitem x ''id'') = Inr (YStr (ns @ ''-'' @ nm @ ''-origin''))
       \<and> get_in d [''spec'', ''distributionConfig'', ''defaultCacheBehavior'', ''targetOriginId'']
           = Inr (YStr (ns @ ''-'' @ nm @ ''-origin''))
       \<and> bind (first_origin d) (\<lambda>x. py_getitem x ''domainName'') = Inr dns"
proof -
  from assms(1) obtain docs where "patch_docs fm ns nm dns docs = Inr out"
    by (auto simp: load_and_patch_template_def bind_eq_Inr)
  from patch_docs_member [OF this assms(2)] obtain doc where
    "patch_doc fm ns nm dns doc = Inr (Some d)" by blast
  from patch_doc_Some [OF this] assms(3) obtain doc1 where
    "patch_distribution ns nm dns doc1 = Inr d" by auto
  from patch_distribution_fields [OF this] show ?thesis
    by (simp add: origin_id_of_def del: get_in.simps)
qed

theorem C4_origin_cross_reference_witness:
  "load_and_patch_template ex_fmt (Inr ex_template) ''ns'' ''app'' (YStr ''alb.example.com'')
     = Inr [ex_out_distribution, ex_out_function]
   \<and> py_get ex_out_distribution ''kind'' YNull = Inr (YStr ''Distribution'')
   \<and> bind (first_origin ex_out_distribution) (\<lambda>x. py_getitem x ''id'') = Inr (YStr ''ns-app-origin'')
   \<and> get_in ex_out_distribution
       [''spec'', ''distributionConfig'', ''defaultCacheBehavior'', ''targetOriginId'']
       = Inr (YStr ''ns-app-origin'')
   \<and> bind (first_origin ex_out_distribution) (\<lambda>x. py_getitem x ''domainName'')
       = Inr (YStr ''alb.example.com'')"
proof -
  have m: "ex_out_distribution \<in> set [ex_out_distribution, ex_out_function]" by simp
  have k: "py_get ex_out_distribution ''kind'' YNull = Inr (YStr ''Distribution'')"
    by (simp add: ex_out_distribution_def py_get_def)
  show ?thesis
    using C4_origin_cross_reference [OF ex_materialized m k] ex_materialized k
    by (simp del: get_in.simps)
qed

lemma create_or_update_crd_unknown:
  assumes "py_get doc ''kind'' YNull = Inr kind" "plural_get kind = Inr None"
  shows "create_or_update_crd e doc w =
     (bind (get_in doc [''metadata'', ''name'']) (\<lambda>_.
      bind (get_in doc [''metadata'', ''namespace'']) (\<lambda>_. Inr ())), w)"
  using assms
  by (auto simp: create_or_update_crd_def seq_def lift_def ret_def bind_def
      split: sum.splits simp del: get_in.simps)

text \<open>
  C7, as the code has it. A template document that is a dictionary and whose kind is
  absent or is a scalar other than the five keys of PLURAL_MAP is skipped without an
  exception: the materializer returns for the template with the document what it returns
  for the template without it. \<open>create_or_update_crd\<close> on such a document issues no
  call and changes neither the cluster, the trace nor the log; it returns when the
  document has \<open>metadata.name\<close> and \<open>metadata.namespace\<close>, and raises the exception
  of reading them (lines 58 and 59) when it has not.
\<close>

theorem C7_unknown_kind_skipped:
  assumes "py_get doc ''kind'' YNull = Inr kind" and "plural_get kind = Inr None"
  shows "patch_doc fm ns nm dns doc = Inr None
       \<and> load_and_patch_template fm (Inr (pre @ doc # post)) ns nm dns
           = load_and_patch_template fm (Inr (pre @ post)) ns nm dns
       \<and> create_or_update_crd e doc w =
           (bind (get_in doc [''metadata'', ''name'']) (\<lambda>_.
            bind (get_in doc [''metadata'', ''namespace'']) (\<lambda>_. Inr ())), w)"
  using patch_doc_unknown [OF assms] patch_docs_skip create_or_update_crd_unknown [OF assms]
  by (simp add: load_and_patch_template_def del: get_in.simps)

theorem C7_unknown_kind_skipped_witness:
  "py_get ex_unknown ''kind'' YNull = Inr (YStr ''Unknown'')
   \<and> py_get ex_unknown_full ''kind'' YNull = Inr (YStr ''Unknown'')
   \<and> plural_get (YStr ''Unknown'') = Inr None
   \<and> patch_doc ex_fmt ''ns'' ''app'' (YStr ''alb.example.com'') ex_unknown = Inr None
   \<and> load_and_patch_template ex_fmt (Inr ([ex_distribution] @ ex_unknown # [ex_function]))
         ''ns'' ''app'' (YStr ''alb.example.com'')
       = load_and_patch_template ex_fmt (Inr ([ex_distribution] @ [ex_function]))
           ''ns'' ''app'' (YStr ''alb.example.com'')
   \<and> create_or_update_crd ex_env ex_unknown ex_world = (Inl KeyError, ex_world)
   \<and> create_or_update_crd ex_env ex_unknown_full ex_world = (Inr (), ex_world)"
proof -
  have k: "py_get ex_unknown ''kind'' YNull = Inr (YStr ''Unknown'')"
    by (simp add: ex_unknown_def py_get_def)
  have k': "py_get ex_unknown_full ''kind'' YNull = Inr (YStr ''Unknown'')"
    by (simp add: ex_unknown_full_def py_get_def)
  have p: "plural_get (YStr ''Unknown'') = Inr None"
    by (simp add: plural_get_def)
  have g: "bind (get_in ex_unknown [''metadata'', ''name'']) (\<lambda>_.
            bind (get_in ex_unknown [''metadata'', ''namespace'']) (\<lambda>_. Inr ())) = Inl KeyError"
    by (simp add: ex_unknown_def py_getitem_def)
  have g': "bind (get_in ex_unknown_full [''metadata'', ''name'']) (\<lambda>_.
            bind (get_in ex_unknown_full [''metadata'', ''namespace'']) (\<lambda>_. Inr ())) = Inr ()"
    by (simp add: ex_unknown_full_def py_getitem_def)
  from C7_unknown_kind_skipped [OF k p, of ex_fmt "''ns''" "''app''" "YStr ''alb.example.com''"
        "[ex_distribution]" "[ex_function]" ex_env ex_world]
  have 1: "patch_doc ex_fmt ''ns'' ''app'' (YStr ''alb.example.com'') ex_unknown = Inr None"
    and 2: "load_and_patch_template ex_fmt (Inr ([ex_distribution] @ ex_unknown # [ex_function]))
         ''ns'' ''app'' (YStr ''alb.example.com'')
       = load_and_patch_template ex_fmt (Inr ([ex_distribution] @ [ex_function]))
           ''ns'' ''app'' (YStr ''alb.example.com'')"
    and 3: "create_or_update_crd ex_env ex_unknown ex_world = (Inl KeyError, ex_world)"
    unfolding g by blast+
  from C7_unknown_kind_skipped [OF k' p, of ex_fmt "''ns''" "''app''" "YStr ''alb.example.com''"
        "[]" "[]" ex_env ex_world]
  have 4: "create_or_update_crd ex_env ex_unknown_full ex_world = (Inr (), ex_world)"
    unfolding g' by blast
  from k k' p 1 2 3 4 show ?thesis by blast
qed

theorem C7_counterexample:
  "\<not> kind_known ex_empty_document
   \<and> \<not> kind_known ex_unhashable
   \<and> load_and_patch_template ex_fmt (Inr [ex_function]) ''ns'' ''app'' (YStr ''alb.example.com'')
       = Inr [ex_out_function]
   \<and> load_and_patch_template ex_fmt (Inr [ex_function, ex_empty_document]) ''ns'' ''app''
         (YStr ''alb.example.com'')
       = Inl AttributeError
   \<and> load_and_patch_template ex_fmt (Inr [ex_function, ex_unhashable]) ''ns'' ''app''
         (YStr ''alb.example.com'')
       = Inl TypeError"
  by (simp add: kind_known_def ex_empty_document_def ex_unhashable_def ex_function_def
      ex_out_function_def load_and_patch_template_def patch_doc_def py_get_def
      in_PLURAL_MAP_def plural_get_def py_setitem_def py_format_def name_prefix_of_def)

section \<open>The desired state\<close>

lemma of_char_lt: "(of_char c :: nat) < 256"
  by (metis of_char_mod_256 mod_less_divisor zero_less_numeral)

lemma lower_char_small:
  assumes "97 \<le> (of_char x :: nat)" "(of_char x :: nat) \<le> 122"
  shows "lower_char c = x \<longleftrightarrow> ci_char c x"
proof -
  let ?n = "of_char c :: nat"
  show ?thesis
  proof (cases "(65 \<le> ?n \<and> ?n \<le> 90) \<or> (192 \<le> ?n \<and> ?n \<le> 222 \<and> ?n \<noteq> 215)")
    case True
    then have lc: "lower_char c = char_of (?n + 32)" by (simp add: lower_char_def Let_def)
    have "?n + 32 < 256" using True by arith
    then have oc: "(of_char (char_of (?n + 32)) :: nat) = ?n + 32" by simp
    show ?thesis
    proof
      assume "lower_char c = x"
      then have "(of_char x :: nat) = ?n + 32" using lc oc by simp
      then show "ci_char c x" using assms by (simp add: ci_char_def)
    next
      assume "ci_char c x"
      then have "?n + 32 = of_char x" using True assms by (auto simp: ci_char_def)
      then have "char_of (?n + 32) = x" by (metis char_of_char)
      then show "lower_char c = x" using lc by simp
    qed
  next
    case False
    have lc: "lower_char c = c"
      unfolding lower_char_def Let_def by (rule if_not_P) (rule False)
    have "ci_char c x \<longleftrightarrow> c = x" using False assms by (auto simp: ci_char_def)
    then show ?thesis using lc by simp
  qed
qed

lemma py_lower_true: "py_lower s = ''true'' \<longleftrightarrow> equals_ignoring_case s ''true''"
proof -
  have t: "\<And>c. lower_char c = CHR ''t'' \<longleftrightarrow> ci_char c CHR ''t''" by (rule lower_char_small) simp_all
  have r: "\<And>c. lower_char c = CHR ''r'' \<longleftrightarrow> ci_char c CHR ''r''" by (rule lower_char_small) simp_all
  have u: "\<And>c. lower_char c = CHR ''u'' \<longleftrightarrow> ci_char c CHR ''u''" by (rule lower_char_small) simp_all
  have e: "\<And>c. lower_char c = CHR ''e'' \<longleftrightarrow> ci_char c CHR ''e''" by (rule lower_char_small) simp_all
  show ?thesis
    by (auto simp: py_lower_def equals_ignoring_case_def list_all2_Cons2 t r u e)
qed

text \<open>
  C5. For every annotation map, the desired state is Enabled exactly when the key
  \<open>cloudfront.aws.k8s.io/enabled\<close> is present and its value equals \<open>true\<close> up to the
  case of its letters. Any other value, and a missing key, give Disabled.
\<close>

theorem C5_desired_state:
  "cf_enabled anns \<longleftrightarrow> (\<exists>v. anns ENABLED_KEY = Some v \<and> equals_ignoring_case v ''true'')"
proof (cases "anns ENABLED_KEY")
  case None
  then show ?thesis by (simp add: cf_enabled_def py_lower_def lower_char_def)
next
  case (Some v)
  then show ?thesis by (simp add: cf_enabled_def py_lower_true)
qed

theorem C5_desired_state_witness:
  "cf_enabled [ENABLED_KEY \<mapsto> ''TrUe''] \<and> \<not> cf_enabled [ENABLED_KEY \<mapsto> ''yes'']
   \<and> \<not> cf_enabled Map.empty"
  by (simp add: C5_desired_state equals_ignoring_case_def ci_char_def)

section \<open>The disabled path: calls issued under any faults\<close>

lemma only_calls_ret: "only_calls P (ret v)"
  by (simp add: only_calls_def ret_def)

lemma only_calls_lift: "only_calls P (lift r)"
  by (simp add: only_calls_def lift_def)

lemma only_calls_logger_info: "only_calls P (logger_info s)"
  by (simp add: only_calls_def logger_info_def)

lemma only_calls_logger_error: "only_calls P (logger_error s x)"
  by (simp add: only_calls_def logger_error_def)

lemma only_calls_seq:
  assumes "only_calls P m" and "\<And>v. only_calls P (f v)"
  shows "only_calls P (seq m f)"
  unfolding only_calls_def
proof
  fix w
  from assms(1) obtain cs where cs: "trace (snd (m w)) = trace w @ cs" "list_all P cs"
    unfolding only_calls_def by blast
  show "\<exists>cs. trace (snd (seq m f w)) = trace w @ cs \<and> list_all P cs"
  proof (cases "m w")
    case (Pair r w1)
    show ?thesis
    proof (cases r)
      case (Inl x)
      then show ?thesis using Pair cs by (auto simp: seq_def)
    next
      case (Inr v)
      from assms(2) [of v] obtain cs' where "trace (snd (f v w1)) = trace w1 @ cs'" "list_all P cs'"
        unfolding only_calls_def by blast
      then show ?thesis using Pair Inr cs by (auto simp: seq_def)
    qed
  qed
qed

lemma only_calls_try:
  assumes "only_calls P m" and "\<And>x. only_calls P (h x)"
  shows "only_calls P (try_except m c h)"
  unfolding only_calls_def
proof
  fix w
  from assms(1) obtain cs where cs: "trace (snd (m w)) = trace w @ cs" "list_all P cs"
    unfolding only_calls_def by blast
  show "\<exists>cs. trace (snd (try_except m c h w)) = trace w @ cs \<and> list_all P cs"
  proof (cases "m w")
    case (Pair r w1)
    show ?thesis
    proof (cases r)
      case (Inr v)
      then show ?thesis using Pair cs by (auto simp: try_except_def)
    next
      case (Inl x)
      from assms(2) [of x] obtain cs' where "trace (snd (h x w1)) = trace w1 @ cs'" "list_all P cs'"
        unfolding only_calls_def by blast
      then show ?thesis using Pair Inl cs by (auto simp: try_except_def)
    qed
  qed
qed

lemma only_calls_issue:
  assumes "P c" and "\<And>w. trace (snd (server w)) = trace w"
  shows "only_calls P (issue e c server)"
  unfolding only_calls_def
proof
  fix w
  show "\<exists>cs. trace (snd (issue e c server w)) = trace w @ cs \<and> list_all P cs"
    using assms by (intro exI [of _ "[c]"]) (simp add: issue_def Let_def split: option.splits)
qed

lemma trace_list_server: "trace (snd (list_server pl ns w)) = trace w"
  by (simp add: list_server_def)

lemma trace_delete_server: "trace (snd (delete_server pl ns n w)) = trace w"
  by (simp add: delete_server_def)

lemma trace_get_server: "trace (snd (get_server pl ns n w)) = trace w"
  by (simp add: get_server_def split: option.splits)

lemma trace_create_server: "trace (snd (create_server pl ns b w)) = trace w"
  by (simp add: create_server_def split: option.splits)

lemma trace_read_ingress_server: "trace (snd (read_ingress_server n ns w)) = trace w"
  by (simp add: read_ingress_server_def split: option.splits)

lemma trace_patch_ingress_server: "trace (snd (patch_ingress_server n ns t w)) = trace w"
  by (simp add: patch_ingress_server_def split: option.splits)

lemma only_calls_delete_items:
  "only_calls is_list_or_delete (delete_items e kind pl ns p items)"
proof (induction items)
  case Nil
  show ?case by (simp add: only_calls_ret)
next
  case (Cons item items)
  have d: "only_calls is_list_or_delete (delete_namespaced_custom_object e ns pl name)" for name
    by (cases name)
      (simp_all add: delete_namespaced_custom_object_def only_calls_lift only_calls_issue
        is_list_or_delete_def trace_delete_server)
  show ?case
    unfolding delete_items.simps
    by (intro only_calls_seq only_calls_lift Cons.IH)
      (simp add: only_calls_seq only_calls_ret only_calls_logger_info d)
qed

lemma only_calls_remove_kind:
  "only_calls is_list_or_delete (remove_kind e ns nm kp)"
  unfolding remove_kind_def list_namespaced_custom_object_def
  by (intro only_calls_try only_calls_seq only_calls_lift only_calls_delete_items
      only_calls_logger_error only_calls_issue)
    (simp_all add: is_list_or_delete_def trace_list_server)

lemma returns_try_all:
  "fst (try_except m (\<lambda>x. True) (\<lambda>x. logger_error s x) w) = Inr ()"
  by (cases "m w") (auto simp: try_except_def logger_error_def split: sum.splits)

lemma remove_kind_returns: "fst (remove_kind e ns nm kp w) = Inr ()"
  unfolding remove_kind_def by (rule returns_try_all)

lemma remove_kinds_calls:
  "\<exists>w' cs. remove_kinds e ns nm kps w = (Inr (), w') \<and> trace w' = trace w @ cs
     \<and> list_all is_list_or_delete cs"
proof (induction kps arbitrary: w)
  case Nil
  show ?case by (simp add: ret_def)
next
  case (Cons kp kps)
  obtain w1 where w1: "remove_kind e ns nm kp w = (Inr (), w1)"
    using remove_kind_returns [of e ns nm kp w] by (cases "remove_kind e ns nm kp w") auto
  from only_calls_remove_kind [of e ns nm kp] w1 obtain cs1 where
    c1: "trace w1 = trace w @ cs1" "list_all is_list_or_delete cs1"
    unfolding only_calls_def by (metis snd_conv)
  from Cons.IH [of w1] obtain w' cs where
    "remove_kinds e ns nm kps w1 = (Inr (), w')" "trace w' = trace w1 @ cs"
    "list_all is_list_or_delete cs" by blast
  then show ?case using w1 c1 by (auto simp: seq_def)
qed

text \<open>
  C10. Whatever faults the calls meet, \<open>remove_crds_and_patch\<close> returns without an
  exception, and the calls it issues are list and delete calls followed by exactly one
  patch of the Ingress that removes the target annotation: the patch is the last call.
\<close>

theorem C10_annotation_clear_always_attempted:
  "\<exists>w' cs. remove_crds_and_patch e ns nm w = (Inr (), w')
     \<and> trace w' = trace w @ cs @ [PatchIngress nm ns None]
     \<and> list_all is_list_or_delete cs"
proof -
  from remove_kinds_calls [of e ns nm PLURAL_MAP w] obtain w1 cs where
    r: "remove_kinds e ns nm PLURAL_MAP w = (Inr (), w1)" and
    t: "trace w1 = trace w @ cs" and l: "list_all is_list_or_delete cs" by blast
  let ?p = "try_except
         (seq (patch_namespaced_ingress e nm ns None) (\<lambda>_.
            logger_info (''Removed external-dns.target from Ingress '' @ nm)))
         (\<lambda>x. True)
         (\<lambda>x. logger_error ''Failed to remove external-dns annotation: '' x)"
  have f: "fst (?p w1) = Inr ()" by (rule returns_try_all)
  have "trace (snd (?p w1)) = trace w1 @ [PatchIngress nm ns None]"
    by (simp add: try_except_def seq_def patch_namespaced_ingress_def issue_def Let_def
        patch_ingress_server_def logger_info_def logger_error_def split: option.splits)
  with f r t l show ?thesis
    by (cases "?p w1") (auto simp: remove_crds_and_patch_def seq_def)
qed

theorem C10_annotation_clear_always_attempted_witness:
  "fst (remove_crds_and_patch ex_all_fail ''ns'' ''app'' ex_world) = Inr ()
   \<and> trace (snd (remove_crds_and_patch ex_all_fail ''ns'' ''app'' ex_world))
     = [ListObj ''distributions'' ''ns'', ListObj ''functions'' ''ns'',
        ListObj ''cachepolicies'' ''ns'', ListObj ''originrequestpolicies'' ''ns'',
        ListObj ''keygroups'' ''ns'', PatchIngress ''app'' ''ns'' None]"
proof -
  have t: "trace (snd (remove_crds_and_patch ex_all_fail ''ns'' ''app'' ex_world))
     = [ListObj ''distributions'' ''ns'', ListObj ''functions'' ''ns'',
        ListObj ''cachepolicies'' ''ns'', ListObj ''originrequestpolicies'' ''ns'',
        ListObj ''keygroups'' ''ns'', PatchIngress ''app'' ''ns'' None]"
    by (simp add: remove_crds_and_patch_def PLURAL_MAP_def remove_kind_def seq_def
        try_except_def list_namespaced_custom_object_def issue_def Let_def ex_all_fail_def
        ex_world_def logger_error_def ret_def patch_namespaced_ingress_def)
  from C10_annotation_clear_always_attempted [of ex_all_fail "''ns''" "''app''" ex_world]
  have "fst (remove_crds_and_patch ex_all_fail ''ns'' ''app'' ex_world) = Inr ()" by auto
  with t show ?thesis by simp
qed

section \<open>The disabled path: what is deleted\<close>

lemma name_of_get_in: "name_of b = Some n \<Longrightarrow> get_in b [''metadata'', ''name''] = Inr (YStr n)"
  by (auto simp: name_of_def split: sum.splits yaml.splits)

lemma store_wf_filter: "store_wf objs \<Longrightarrow> store_wf (filter keep objs)"
  by (auto simp: store_wf_def list_all_iff distinct_map_filter)

text \<open>The inner loop when no call on the plural fails.\<close>

lemma delete_items_exact:
  assumes q: "quiet e pl"
  shows "list_all (\<lambda>b. name_of b \<noteq> None) items \<Longrightarrow> distinct (map name_of items) \<Longrightarrow>
     (\<forall>b \<in> set items. \<forall>n. name_of b = Some n \<longrightarrow> startswith n p \<longrightarrow> exists_obj w pl ns n) \<Longrightarrow>
     \<exists>w'. delete_items e kind pl ns p items w = (Inr (), w')
       \<and> objects w' = filter (\<lambda>obj. \<not> (\<exists>b \<in> set items. \<exists>n. name_of b = Some n \<and> startswith n p
                                      \<and> is_obj pl ns n obj)) (objects w)
       \<and> trace w' = trace w @ map (DeleteObj pl ns)
           (map (\<lambda>b. case name_of b of None \<Rightarrow> [] | Some n \<Rightarrow> n)
              (filter (\<lambda>b. case name_of b of None \<Rightarrow> False | Some n \<Rightarrow> startswith n p) items))
       \<and> ingresses w' = ingresses w"
proof (induction items arbitrary: w)
  case Nil
  show ?case by (simp add: ret_def)
next
  case (Cons b items)
  from Cons.prems(1) obtain n where n: "name_of b = Some n" by auto
  have g: "get_in b [''metadata'', ''name''] = Inr (YStr n)" by (rule name_of_get_in [OF n])
  have rest1: "list_all (\<lambda>b. name_of b \<noteq> None) items" using Cons.prems(1) by simp
  have rest2: "distinct (map name_of items)" using Cons.prems(2) by simp
  show ?case
  proof (cases "startswith n p")
    case False
    have inv: "\<forall>b \<in> set items. \<forall>n. name_of b = Some n \<longrightarrow> startswith n p \<longrightarrow> exists_obj w pl ns n"
      using Cons.prems(3) by simp
    from Cons.IH [OF rest1 rest2 inv] obtain w' where
      r: "delete_items e kind pl ns p items w = (Inr (), w')" and
      o: "objects w' = filter (\<lambda>obj. \<not> (\<exists>b \<in> set items. \<exists>n. name_of b = Some n \<and> startswith n p
                                      \<and> is_obj pl ns n obj)) (objects w)" and
      t: "trace w' = trace w @ map (DeleteObj pl ns)
           (map (\<lambda>b. case name_of b of None \<Rightarrow> [] | Some n \<Rightarrow> n)
              (filter (\<lambda>b. case name_of b of None \<Rightarrow> False | Some n \<Rightarrow> startswith n p) items))" and
      i: "ingresses w' = ingresses w"
      by blast
    have step: "delete_items e kind pl ns p (b # items) w = delete_items e kind pl ns p items w"
      using g False
      by (simp add: seq_def lift_def py_startswith_def ret_def del: get_in.simps)
    have "(\<lambda>obj. \<not> (\<exists>b' \<in> set (b # items). \<exists>n. name_of b' = Some n \<and> startswith n p
                                      \<and> is_obj pl ns n obj))
        = (\<lambda>obj. \<not> (\<exists>b \<in> set items. \<exists>n. name_of b = Some n \<and> startswith n p
                                      \<and> is_obj pl ns n obj))"
      using n False by auto
    then show ?thesis using step r o t i n False by simp
  next
    case True
    from Cons.prems(3) n True have ex: "exists_obj w pl ns n" by simp
    define w0 where "w0 = w\<lparr>trace := trace w @ [DeleteObj pl ns n]\<rparr>"
    define w1 where "w1 = w0\<lparr>objects := filter (\<lambda>obj. \<not> is_obj pl ns n obj) (objects w0)\<rparr>"
    define w2 where "w2 = w1\<lparr>logs := logs w1 @ [Info (''Deleted '' @ kind @ '' '' @ n)]\<rparr>"
    have nf: "faults e (length (trace w)) (DeleteObj pl ns n) = None"
      using q by (simp add: quiet_def plural_of_call_def)
    have ex0: "exists_obj w0 pl ns n" using ex by (simp add: exists_obj_def w0_def)
    have del: "delete_namespaced_custom_object e ns pl (YStr n) w = (Inr (YMap []), w1)"
      using nf ex0
      by (simp add: delete_namespaced_custom_object_def issue_def Let_def delete_server_def
          w0_def [symmetric] w1_def)
    have step: "delete_items e kind pl ns p (b # items) w = delete_items e kind pl ns p items w2"
      using g True del
      by (simp add: seq_def lift_def py_startswith_def ret_def logger_info_def py_format_def
          w2_def del: get_in.simps)
    have o2: "objects w2 = filter (\<lambda>obj. \<not> is_obj pl ns n obj) (objects w)"
      by (simp add: w2_def w1_def w0_def)
    have inv: "\<forall>b' \<in> set items. \<forall>n'. name_of b' = Some n' \<longrightarrow> startswith n' p
                 \<longrightarrow> exists_obj w2 pl ns n'"
    proof (intro ballI allI impI)
      fix b' n' assume b': "b' \<in> set items" and n': "name_of b' = Some n'" and s: "startswith n' p"
      from Cons.prems(3) b' n' s have e': "exists_obj w pl ns n'" by simp
      from Cons.prems(2) b' n n' have ne: "n' \<noteq> n" by force
      from e' obtain obj where "obj \<in> set (objects w)" "is_obj pl ns n' obj"
        by (auto simp: exists_obj_def find_None_iff)
      moreover from this ne have "\<not> is_obj pl ns n obj" by (auto simp: is_obj_def)
      ultimately have "obj \<in> set (objects w2) \<and> is_obj pl ns n' obj" by (simp add: o2)
      then show "exists_obj w2 pl ns n'" unfolding exists_obj_def find_None_iff by blast
    qed
    from Cons.IH [OF rest1 rest2 inv] obtain w' where
      r: "delete_items e kind pl ns p items w2 = (Inr (), w')" and
      o: "objects w' = filter (\<lambda>obj. \<not> (\<exists>b \<in> set items. \<exists>n. name_of b = Some n \<and> startswith n p
                                      \<and> is_obj pl ns n obj)) (objects w2)" and
      t: "trace w' = trace w2 @ map (DeleteObj pl ns)
           (map (\<lambda>b. case name_of b of None \<Rightarrow> [] | Some n \<Rightarrow> n)
              (filter (\<lambda>b. case name_of b of None \<Rightarrow> False | Some n \<Rightarrow> startswith n p) items))" and
      i: "ingresses w' = ingresses w2"
      by blast
    have t2: "trace w2 = trace w @ [DeleteObj pl ns n]" by (simp add: w2_def w1_def w0_def)
    have i2: "ingresses w2 = ingresses w" by (simp add: w2_def w1_def w0_def)
    have oo: "objects w' = filter (\<lambda>obj. \<not> (\<exists>b' \<in> set (b # items). \<exists>n. name_of b' = Some n
                 \<and> startswith n p \<and> is_obj pl ns n obj)) (objects w)"
      unfolding o o2 filter_filter using n True
      by (intro filter_cong refl) auto
    show ?thesis using step r oo t t2 i i2 n True by simp
  qed
qed

lemma distinct_names_of_keys:
  assumes "distinct (map obj_key objs)"
  shows "distinct (map name_of (map (\<lambda>obj. snd (snd obj))
           (filter (\<lambda>obj. fst obj = pl \<and> fst (snd obj) = ns) objs)))"
proof -
  let ?ys = "filter (\<lambda>obj. fst obj = pl \<and> fst (snd obj) = ns) objs"
  have "distinct (map obj_key ?ys)" using assms by (rule distinct_map_filter)
  moreover have "map obj_key ?ys = map (\<lambda>n. (pl, ns, n)) (map (\<lambda>obj. name_of (snd (snd obj))) ?ys)"
    by (simp add: obj_key_def)
  ultimately have "distinct (map (\<lambda>obj. name_of (snd (snd obj))) ?ys)"
    by (simp only: distinct_map)
  then show ?thesis by (simp add: comp_def)
qed

lemma remove_kind_exact:
  assumes q: "quiet e (snd kp)" and wf: "store_wf (objects w)"
  shows "\<exists>w'. remove_kind e ns nm kp w = (Inr (), w')
       \<and> objects w' = filter (\<lambda>obj. \<not> doomed (snd kp) ns (name_prefix_of ns nm) obj) (objects w)
       \<and> trace w' = trace w @ ListObj (snd kp) ns
           # map (DeleteObj (snd kp) ns) (doomed_names (snd kp) ns (name_prefix_of ns nm) (objects w))
       \<and> ingresses w' = ingresses w"
proof -
  let ?pl = "snd kp" and ?p = "name_prefix_of ns nm"
  define w0 where "w0 = w\<lparr>trace := trace w @ [ListObj ?pl ns]\<rparr>"
  define items where "items = map (\<lambda>obj. snd (snd obj))
      (filter (\<lambda>obj. fst obj = ?pl \<and> fst (snd obj) = ns) (objects w))"
  have nf: "faults e (length (trace w)) (ListObj ?pl ns) = None"
    using q by (simp add: quiet_def plural_of_call_def)
  have lst: "list_namespaced_custom_object e ns ?pl w = (Inr (YMap [(''items'', YList items)]), w0)"
    using nf
    by (simp add: list_namespaced_custom_object_def issue_def Let_def list_server_def w0_def items_def)
  have a1: "list_all (\<lambda>b. name_of b \<noteq> None) items"
    using wf by (auto simp: store_wf_def list_all_iff items_def)
  have a2: "distinct (map name_of items)"
    unfolding items_def using wf by (intro distinct_names_of_keys) (simp add: store_wf_def)
  have a3: "\<forall>b \<in> set items. \<forall>n. name_of b = Some n \<longrightarrow> startswith n ?p \<longrightarrow> exists_obj w0 ?pl ns n"
  proof (intro ballI allI impI)
    fix b n assume "b \<in> set items" and n: "name_of b = Some n"
    then obtain obj where "obj \<in> set (objects w)" "fst obj = ?pl" "fst (snd obj) = ns" "b = snd (snd obj)"
      by (auto simp: items_def)
    with n have "obj \<in> set (objects w0) \<and> is_obj ?pl ns n obj" by (simp add: is_obj_def w0_def)
    then show "exists_obj w0 ?pl ns n" unfolding exists_obj_def find_None_iff by blast
  qed
  from delete_items_exact [OF q a1 a2 a3, of "fst kp"] obtain w' where
    r: "delete_items e (fst kp) ?pl ns ?p items w0 = (Inr (), w')" and
    o: "objects w' = filter (\<lambda>obj. \<not> (\<exists>b \<in> set items. \<exists>n. name_of b = Some n \<and> startswith n ?p
                                      \<and> is_obj ?pl ns n obj)) (objects w0)" and
    t: "trace w' = trace w0 @ map (DeleteObj ?pl ns)
           (map (\<lambda>b. case name_of b of None \<Rightarrow> [] | Some n \<Rightarrow> n)
              (filter (\<lambda>b. case name_of b of None \<Rightarrow> False | Some n \<Rightarrow> startswith n ?p) items))" and
    i: "ingresses w' = ingresses w0"
    by blast
  have run: "remove_kind e ns nm kp w = (Inr (), w')"
    using lst r
    by (simp add: remove_kind_def try_except_def seq_def lift_def py_get_def py_iter_def)
  have oo: "objects w' = filter (\<lambda>obj. \<not> doomed ?pl ns ?p obj) (objects w)"
    unfolding o
  proof -
    have "filter (\<lambda>obj. \<not> (\<exists>b \<in> set items. \<exists>n. name_of b = Some n \<and> startswith n ?p
                                      \<and> is_obj ?pl ns n obj)) (objects w)
        = filter (\<lambda>obj. \<not> doomed ?pl ns ?p obj) (objects w)"
    proof (intro filter_cong refl)
      fix obj assume m: "obj \<in> set (objects w)"
      have "(\<exists>b \<in> set items. \<exists>n. name_of b = Some n \<and> startswith n ?p \<and> is_obj ?pl ns n obj)
            \<longleftrightarrow> doomed ?pl ns ?p obj"
      proof
        assume "\<exists>b \<in> set items. \<exists>n. name_of b = Some n \<and> startswith n ?p \<and> is_obj ?pl ns n obj"
        then show "doomed ?pl ns ?p obj" by (auto simp: doomed_def is_obj_def)
      next
        assume d: "doomed ?pl ns ?p obj"
        then obtain n where n: "name_of (snd (snd obj)) = Some n" "startswith n ?p"
          by (auto simp: doomed_def split: option.splits)
        from d m have "snd (snd obj) \<in> set items" by (auto simp: items_def doomed_def)
        moreover from d n have "is_obj ?pl ns n obj" by (simp add: is_obj_def doomed_def)
        ultimately show "\<exists>b \<in> set items. \<exists>n. name_of b = Some n \<and> startswith n ?p \<and> is_obj ?pl ns n obj"
          using n by blast
      qed
      then show "(\<not> (\<exists>b \<in> set items. \<exists>n. name_of b = Some n \<and> startswith n ?p
                                      \<and> is_obj ?pl ns n obj)) = (\<not> doomed ?pl ns ?p obj)"
        by simp
    qed
    then show "filter (\<lambda>obj. \<not> (\<exists>b \<in> set items. \<exists>n. name_of b = Some n \<and> startswith n ?p
                                      \<and> is_obj ?pl ns n obj)) (objects w0)
        = filter (\<lambda>obj. \<not> doomed ?pl ns ?p obj) (objects w)"
      by (simp add: w0_def)
  qed
  have nn: "map (\<lambda>b. case name_of b of None \<Rightarrow> [] | Some n \<Rightarrow> n)
              (filter (\<lambda>b. case name_of b of None \<Rightarrow> False | Some n \<Rightarrow> startswith n ?p) items)
          = doomed_names ?pl ns ?p (objects w)"
    unfolding items_def doomed_names_def filter_map map_map filter_filter comp_def
    by (intro arg_cong2 [where f = map] refl filter_cong) (auto simp: doomed_def)
  show ?thesis using run oo t nn i by (simp add: w0_def)
qed

lemma doomed_names_other:
  assumes "pl' \<noteq> pl"
  shows "doomed_names pl' ns p (filter (\<lambda>obj. \<not> doomed pl ns p obj) objs) = doomed_names pl' ns p objs"
  unfolding doomed_names_def filter_filter
  by (intro arg_cong2 [where f = map] refl filter_cong) (use assms in \<open>auto simp: doomed_def\<close>)

lemma remove_kinds_exact:
  assumes "\<forall>kp \<in> set kps. quiet e (snd kp)" and "store_wf (objects w)" and "distinct (map snd kps)"
  shows "\<exists>w'. remove_kinds e ns nm kps w = (Inr (), w')
       \<and> objects w' = filter (\<lambda>obj. \<not> (\<exists>kp \<in> set kps. doomed (snd kp) ns (name_prefix_of ns nm) obj))
                        (objects w)
       \<and> trace w' = trace w @ concat (map (\<lambda>kp. ListObj (snd kp) ns
             # map (DeleteObj (snd kp) ns)
                 (doomed_names (snd kp) ns (name_prefix_of ns nm) (objects w))) kps)
       \<and> ingresses w' = ingresses w"
  using assms
proof (induction kps arbitrary: w)
  case Nil
  show ?case by (simp add: ret_def)
next
  case (Cons kp kps)
  let ?p = "name_prefix_of ns nm"
  from Cons.prems(1) have q: "quiet e (snd kp)" by simp
  from remove_kind_exact [OF q Cons.prems(2), of ns nm] obtain w1 where
    r1: "remove_kind e ns nm kp w = (Inr (), w1)" and
    o1: "objects w1 = filter (\<lambda>obj. \<not> doomed (snd kp) ns ?p obj) (objects w)" and
    t1: "trace w1 = trace w @ ListObj (snd kp) ns
           # map (DeleteObj (snd kp) ns) (doomed_names (snd kp) ns ?p (objects w))" and
    i1: "ingresses w1 = ingresses w"
    by blast
  have wf1: "store_wf (objects w1)" unfolding o1 by (rule store_wf_filter [OF Cons.prems(2)])
  from Cons.prems(1) have qs: "\<forall>kp \<in> set kps. quiet e (snd kp)" by simp
  from Cons.prems(3) have ds: "distinct (map snd kps)" by simp
  from Cons.IH [OF qs wf1 ds] obtain w' where
    r: "remove_kinds e ns nm kps w1 = (Inr (), w')" and
    o: "objects w' = filter (\<lambda>obj. \<not> (\<exists>kp \<in> set kps. doomed (snd kp) ns ?p obj)) (objects w1)" and
    t: "trace w' = trace w1 @ concat (map (\<lambda>kp. ListObj (snd kp) ns
             # map (DeleteObj (snd kp) ns) (doomed_names (snd kp) ns ?p (objects w1))) kps)" and
    i: "ingresses w' = ingresses w1"
    by blast
  have names: "map (\<lambda>kp'. ListObj (snd kp') ns
             # map (DeleteObj (snd kp') ns) (doomed_names (snd kp') ns ?p (objects w1))) kps
        = map (\<lambda>kp'. ListObj (snd kp') ns
             # map (DeleteObj (snd kp') ns) (doomed_names (snd kp') ns ?p (objects w))) kps"
  proof (rule map_cong [OF refl])
    fix kp' assume "kp' \<in> set kps"
    then have "snd kp' \<in> snd ` set kps" by simp
    moreover from Cons.prems(3) have "snd kp \<notin> snd ` set kps" by simp
    ultimately have "snd kp' \<noteq> snd kp" by metis
    then show "ListObj (snd kp') ns
             # map (DeleteObj (snd kp') ns) (doomed_names (snd kp') ns ?p (objects w1))
        = ListObj (snd kp') ns
             # map (DeleteObj (snd kp') ns) (doomed_names (snd kp') ns ?p (objects w))"
      unfolding o1 by (simp add: doomed_names_other)
  qed
  have oo: "objects w' = filter (\<lambda>obj. \<not> (\<exists>kp' \<in> set (kp # kps). doomed (snd kp') ns ?p obj))
                           (objects w)"
    unfolding o o1 filter_filter by (intro filter_cong refl) auto
  show ?case using r1 r oo t t1 names i i1 by (simp add: seq_def)
qed

subsection \<open>What the disabled path leaves alone, under any faults\<close>

lemma only_deletes_ret: "only_deletes M (ret v)"
  unfolding only_deletes_def by (intro allI exI [of _ "\<lambda>_. True"]) (simp add: ret_def)

lemma only_deletes_logger_info: "only_deletes M (logger_info s)"
  unfolding only_deletes_def by (intro allI exI [of _ "\<lambda>_. True"]) (simp add: logger_info_def)

lemma only_deletes_logger_error: "only_deletes M (logger_error s x)"
  unfolding only_deletes_def by (intro allI exI [of _ "\<lambda>_. True"]) (simp add: logger_error_def)

lemma only_deletes_lift: "only_deletes M (lift r)"
  unfolding only_deletes_def by (intro allI exI [of _ "\<lambda>_. True"]) (simp add: lift_def)

lemma only_deletes_step:
  assumes "objects w1 = filter k1 (objects w)" "\<forall>obj. \<not> M obj \<longrightarrow> k1 obj"
    and "objects w2 = filter k2 (objects w1)" "\<forall>obj. \<not> M obj \<longrightarrow> k2 obj"
  shows "\<exists>keep. objects w2 = filter keep (objects w) \<and> (\<forall>obj. \<not> M obj \<longrightarrow> keep obj)"
  using assms by (intro exI [of _ "\<lambda>obj. k1 obj \<and> k2 obj"]) (simp add: conj_commute)

lemma only_deletes_seq:
  assumes "only_deletes M m" and "\<And>v w. fst (m w) = Inr v \<Longrightarrow> only_deletes M (f v)"
  shows "only_deletes M (seq m f)"
  unfolding only_deletes_def
proof
  fix w
  from assms(1) obtain k1 where k1: "objects (snd (m w)) = filter k1 (objects w)"
    "\<forall>obj. \<not> M obj \<longrightarrow> k1 obj"
    unfolding only_deletes_def by blast
  show "\<exists>keep. objects (snd (seq m f w)) = filter keep (objects w) \<and> (\<forall>obj. \<not> M obj \<longrightarrow> keep obj)"
  proof (cases "m w")
    case (Pair r w1)
    show ?thesis
    proof (cases r)
      case (Inl x)
      then show ?thesis using Pair k1 by (auto simp: seq_def)
    next
      case (Inr v)
      with Pair have "only_deletes M (f v)" using assms(2) [of w v] by simp
      then obtain k2 where "objects (snd (f v w1)) = filter k2 (objects w1)"
        "\<forall>obj. \<not> M obj \<longrightarrow> k2 obj"
        unfolding only_deletes_def by blast
      with k1 Pair Inr show ?thesis
        using only_deletes_step [of w1 k1 w M "snd (f v w1)" k2] by (simp add: seq_def)
    qed
  qed
qed

lemma only_deletes_try:
  assumes "only_deletes M m" and "\<And>x. only_deletes M (h x)"
  shows "only_deletes M (try_except m c h)"
  unfolding only_deletes_def
proof
  fix w
  from assms(1) obtain k1 where k1: "objects (snd (m w)) = filter k1 (objects w)"
    "\<forall>obj. \<not> M obj \<longrightarrow> k1 obj"
    unfolding only_deletes_def by blast
  show "\<exists>keep. objects (snd (try_except m c h w)) = filter keep (objects w)
          \<and> (\<forall>obj. \<not> M obj \<longrightarrow> keep obj)"
  proof (cases "m w")
    case (Pair r w1)
    show ?thesis
    proof (cases r)
      case (Inr v)
      then show ?thesis using Pair k1 by (auto simp: try_except_def)
    next
      case (Inl x)
      from assms(2) [of x] obtain k2 where "objects (snd (h x w1)) = filter k2 (objects w1)"
        "\<forall>obj. \<not> M obj \<longrightarrow> k2 obj"
        unfolding only_deletes_def by blast
      with k1 Pair Inl show ?thesis
        using only_deletes_step [of w1 k1 w M "snd (h x w1)" k2] by (auto simp: try_except_def)
    qed
  qed
qed

lemma only_deletes_issue:
  assumes "\<And>w. \<exists>keep. objects (snd (server w)) = filter keep (objects w) \<and> (\<forall>obj. \<not> M obj \<longrightarrow> keep obj)"
  shows "only_deletes M (issue e c server)"
  unfolding only_deletes_def
proof
  fix w :: world
  let ?w0 = "w\<lparr>trace := trace w @ [c]\<rparr>"
  show "\<exists>keep. objects (snd (issue e c server w)) = filter keep (objects w)
          \<and> (\<forall>obj. \<not> M obj \<longrightarrow> keep obj)"
  proof (cases "faults e (length (trace w)) c")
    case (Some x)
    then show ?thesis by (intro exI [of _ "\<lambda>_. True"]) (simp add: issue_def Let_def)
  next
    case None
    from assms [of ?w0] obtain keep where "objects (snd (server ?w0)) = filter keep (objects ?w0)"
      "\<forall>obj. \<not> M obj \<longrightarrow> keep obj" by blast
    with None show ?thesis by (intro exI [of _ keep]) (simp add: issue_def Let_def)
  qed
qed

lemma only_deletes_delete:
  assumes "startswith n p"
  shows "only_deletes (doomed pl ns p) (delete_namespaced_custom_object e ns pl (YStr n))"
  unfolding delete_namespaced_custom_object_def yaml.case
proof (rule only_deletes_issue)
  fix w
  show "\<exists>keep. objects (snd (delete_server pl ns n w)) = filter keep (objects w)
          \<and> (\<forall>obj. \<not> doomed pl ns p obj \<longrightarrow> keep obj)"
  proof (cases "exists_obj w pl ns n")
    case True
    then show ?thesis
      using assms
      by (intro exI [of _ "\<lambda>obj. \<not> is_obj pl ns n obj"])
        (auto simp: delete_server_def doomed_def is_obj_def)
  next
    case False
    then show ?thesis by (intro exI [of _ "\<lambda>_. True"]) (simp add: delete_server_def)
  qed
qed

lemma fst_lift: "fst (lift r w) = Inr v \<Longrightarrow> r = Inr v"
  by (simp add: lift_def)

lemma only_deletes_delete_items:
  "only_deletes (doomed pl ns p) (delete_items e kind pl ns p items)"
proof (induction items)
  case Nil
  show ?case by (simp add: only_deletes_ret)
next
  case (Cons item items)
  show ?case
    unfolding delete_items.simps
  proof (intro only_deletes_seq only_deletes_lift Cons.IH)
    fix name hit w w'
    assume "fst (lift (py_startswith name p) w') = Inr hit"
    then have h: "py_startswith name p = Inr hit" by (rule fst_lift)
    show "only_deletes (doomed pl ns p)
           (if hit
            then seq (delete_namespaced_custom_object e ns pl name)
                  (\<lambda>_. logger_info (''Deleted '' @ kind @ '' '' @ py_format (fmt e) name))
            else ret ())"
    proof (cases hit)
      case False
      then show ?thesis by (simp add: only_deletes_ret)
    next
      case True
      with h obtain n where "name = YStr n" "startswith n p"
        by (cases name) (auto simp: py_startswith_def)
      with True show ?thesis
        by (simp add: only_deletes_seq only_deletes_delete only_deletes_logger_info)
    qed
  qed
qed

lemma only_deletes_list:
  "only_deletes M (list_namespaced_custom_object e ns pl)"
  unfolding list_namespaced_custom_object_def
  by (rule only_deletes_issue) (intro exI [of _ "\<lambda>_. True"], simp add: list_server_def)

lemma only_deletes_remove_kind:
  "only_deletes (doomed (snd kp) ns (name_prefix_of ns nm)) (remove_kind e ns nm kp)"
  unfolding remove_kind_def
  by (intro only_deletes_try only_deletes_seq only_deletes_lift only_deletes_list
      only_deletes_delete_items only_deletes_logger_error)


lemma only_deletes_weaken:
  assumes "only_deletes M m" and "\<And>obj. M obj \<Longrightarrow> M' obj"
  shows "only_deletes M' m"
  using assms unfolding only_deletes_def by metis

lemma only_deletes_remove_kinds:
  "only_deletes (\<lambda>obj. \<exists>kp \<in> set kps. doomed (snd kp) ns (name_prefix_of ns nm) obj)
     (remove_kinds e ns nm kps)"
proof (induction kps)
  case Nil
  show ?case by (simp add: only_deletes_ret)
next
  case (Cons kp kps)
  show ?case
    unfolding remove_kinds.simps
  proof (rule only_deletes_seq)
    show "only_deletes (\<lambda>obj. \<exists>kp' \<in> set (kp # kps). doomed (snd kp') ns (name_prefix_of ns nm) obj)
            (remove_kind e ns nm kp)"
      by (rule only_deletes_weaken [OF only_deletes_remove_kind]) simp
    show "only_deletes (\<lambda>obj. \<exists>kp' \<in> set (kp # kps). doomed (snd kp') ns (name_prefix_of ns nm) obj)
            (remove_kinds e ns nm kps)"
      by (rule only_deletes_weaken [OF Cons.IH]) simp
  qed
qed

lemma only_deletes_patch: "only_deletes M (patch_namespaced_ingress e nm ns t)"
  unfolding patch_namespaced_ingress_def
  by (rule only_deletes_issue)
    (intro exI [of _ "\<lambda>_. True"], simp add: patch_ingress_server_def split: option.splits)

lemma only_deletes_remove_crds_and_patch:
  "only_deletes (to_delete ns nm) (remove_crds_and_patch e ns nm)"
  unfolding remove_crds_and_patch_def
proof (intro only_deletes_seq only_deletes_try only_deletes_patch only_deletes_logger_info
    only_deletes_logger_error)
  show "only_deletes (to_delete ns nm) (remove_kinds e ns nm PLURAL_MAP)"
    by (rule only_deletes_weaken [OF only_deletes_remove_kinds])
      (simp add: to_delete_def list_ex_iff name_prefix_of_def)
qed

lemma only_deletes_frame:
  assumes "only_deletes M m"
  shows "filter (\<lambda>obj. \<not> M obj) (objects (snd (m w))) = filter (\<lambda>obj. \<not> M obj) (objects w)"
proof -
  from assms obtain keep where k: "objects (snd (m w)) = filter keep (objects w)"
    "\<forall>obj. \<not> M obj \<longrightarrow> keep obj"
    unfolding only_deletes_def by blast
  show ?thesis unfolding k(1) filter_filter using k(2) by (intro filter_cong refl) auto
qed

lemma reconcile_disabled:
  assumes "\<not> cf_enabled anns"
  shows "reconcile_ingress e anns ns nm w =
     remove_crds_and_patch e ns nm
       (w\<lparr>logs := logs w @
          [Info (''Processing Ingress: '' @ nm @ '' in namespace: '' @ ns),
           Info (''Annotations: cloudfront.aws.k8s.io/enabled='' @ not_set anns ENABLED_KEY
                 @ '', external-dns.alpha.kubernetes.io/target='' @ not_set anns TARGET_KEY)]\<rparr>)"
  using assms by (simp add: reconcile_ingress_def seq_def logger_info_def)

lemma quiet_no_faults: "\<forall>n c. faults e n c = None \<Longrightarrow> quiet e pl"
  by (simp add: quiet_def)

lemma remove_crds_and_patch_exact:
  assumes nf: "\<forall>n c. faults e n c = None" and wf: "store_wf (objects w)"
  shows "\<exists>w'. remove_crds_and_patch e ns nm w = (Inr (), w')
       \<and> objects w' = filter (\<lambda>obj. \<not> to_delete ns nm obj) (objects w)
       \<and> trace w' = trace w @ teardown_calls ns nm (objects w)
       \<and> ingresses w' = clear_target ns nm (ingresses w)"
proof -
  have q: "\<forall>kp \<in> set PLURAL_MAP. quiet e (snd kp)" using nf by (simp add: quiet_no_faults)
  have d: "distinct (map snd PLURAL_MAP)" by (simp add: PLURAL_MAP_def)
  from remove_kinds_exact [OF q wf d, of ns nm] obtain w1 where
    r: "remove_kinds e ns nm PLURAL_MAP w = (Inr (), w1)" and
    o: "objects w1 = filter (\<lambda>obj. \<not> (\<exists>kp \<in> set PLURAL_MAP. doomed (snd kp) ns (name_prefix_of ns nm) obj))
                        (objects w)" and
    t: "trace w1 = trace w @ concat (map (\<lambda>kp. ListObj (snd kp) ns
             # map (DeleteObj (snd kp) ns)
                 (doomed_names (snd kp) ns (name_prefix_of ns nm) (objects w))) PLURAL_MAP)" and
    i: "ingresses w1 = ingresses w"
    by blast
  let ?p = "try_except
         (seq (patch_namespaced_ingress e nm ns None) (\<lambda>_.
            logger_info (''Removed external-dns.target from Ingress '' @ nm)))
         (\<lambda>x. True)
         (\<lambda>x. logger_error ''Failed to remove external-dns annotation: '' x)"
  have p: "fst (?p w1) = Inr () \<and> objects (snd (?p w1)) = objects w1
         \<and> trace (snd (?p w1)) = trace w1 @ [PatchIngress nm ns None]
         \<and> ingresses (snd (?p w1)) = clear_target ns nm (ingresses w1)"
    using nf
    by (simp add: try_except_def seq_def patch_namespaced_ingress_def issue_def Let_def
        patch_ingress_server_def logger_info_def logger_error_def clear_target_def
        split: option.splits)
  have run: "remove_crds_and_patch e ns nm w = (Inr (), snd (?p w1))"
    using r p by (cases "?p w1") (simp add: remove_crds_and_patch_def seq_def)
  show ?thesis
    using run p o t i
    by (simp add: to_delete_def list_ex_iff teardown_calls_def name_prefix_of_def)
qed

lemma remove_crds_and_patch_returns: "fst (remove_crds_and_patch e ns nm w) = Inr ()"
proof -
  from remove_kinds_calls [of e ns nm PLURAL_MAP w] obtain w1 where
    r: "remove_kinds e ns nm PLURAL_MAP w = (Inr (), w1)" by blast
  show ?thesis
    unfolding remove_crds_and_patch_def seq_def r by (simp add: returns_try_all)
qed

text \<open>
  C2. On a tick whose desired state is Disabled the tick returns without an exception and,
  whatever faults the calls meet, an object stays in the store, in its place, unless its
  plural is one of PLURAL_MAP, its namespace is that of the Ingress and its name starts
  with \<open>{namespace}-{ingress_name}-\<close>. When no call fails and the store is well
  formed, exactly the objects with such a plural, namespace and name are deleted: the
  calls are, for each entry of PLURAL_MAP in order, one list and one delete for each of
  them, and then the patch that removes the target annotation from the Ingress.
\<close>

theorem C2_teardown_by_prefix:
  assumes "\<not> cf_enabled anns"
  shows "fst (reconcile_ingress e anns ns nm w) = Inr ()
       \<and> filter (\<lambda>obj. \<not> to_delete ns nm obj) (objects (snd (reconcile_ingress e anns ns nm w)))
           = filter (\<lambda>obj. \<not> to_delete ns nm obj) (objects w)
       \<and> ((\<forall>n c. faults e n c = None) \<and> store_wf (objects w) \<longrightarrow>
            objects (snd (reconcile_ingress e anns ns nm w))
              = filter (\<lambda>obj. \<not> to_delete ns nm obj) (objects w)
          \<and> trace (snd (reconcile_ingress e anns ns nm w))
              = trace w @ teardown_calls ns nm (objects w)
          \<and> ingresses (snd (reconcile_ingress e anns ns nm w))
              = clear_target ns nm (ingresses w))"
proof -
  let ?w = "w\<lparr>logs := logs w @
          [Info (''Processing Ingress: '' @ nm @ '' in namespace: '' @ ns),
           Info (''Annotations: cloudfront.aws.k8s.io/enabled='' @ not_set anns ENABLED_KEY
                 @ '', external-dns.alpha.kubernetes.io/target='' @ not_set anns TARGET_KEY)]\<rparr>"
  have eq: "reconcile_ingress e anns ns nm w = remove_crds_and_patch e ns nm ?w"
    by (rule reconcile_disabled [OF assms])
  have a: "fst (reconcile_ingress e anns ns nm w) = Inr ()"
    unfolding eq by (rule remove_crds_and_patch_returns)
  have b: "filter (\<lambda>obj. \<not> to_delete ns nm obj) (objects (snd (reconcile_ingress e anns ns nm w)))
           = filter (\<lambda>obj. \<not> to_delete ns nm obj) (objects w)"
    unfolding eq using only_deletes_frame [OF only_deletes_remove_crds_and_patch, of ns nm e ?w]
    by simp
  have c: "objects (snd (reconcile_ingress e anns ns nm w))
              = filter (\<lambda>obj. \<not> to_delete ns nm obj) (objects w)
          \<and> trace (snd (reconcile_ingress e anns ns nm w))
              = trace w @ teardown_calls ns nm (objects w)
          \<and> ingresses (snd (reconcile_ingress e anns ns nm w))
              = clear_target ns nm (ingresses w)"
    if nf: "\<forall>n c. faults e n c = None" and wf: "store_wf (objects w)"
  proof -
    from wf have wf': "store_wf (objects ?w)" by simp
    from remove_crds_and_patch_exact [OF nf wf', of ns nm] show ?thesis
      unfolding eq by auto
  qed
  from a b c show ?thesis by blast
qed

subsection \<open>Isolation between kinds\<close>







section \<open>The disabled path on the sample clusters\<close>

lemma name_of_named [simp]: "name_of (named n) = Some n"
  by (simp add: named_def name_of_def py_getitem_def)

lemma get_in_named [simp]: "get_in (named n) [''metadata'', ''name''] = Inr (YStr n)"
  by (simp add: named_def py_getitem_def)

lemma store_wf_ex_cluster: "store_wf (objects ex_cluster)"
  by (simp add: store_wf_def ex_cluster_def obj_key_def)


lemma ex_env_no_faults: "\<forall>n c. faults ex_env n c = None"
  by (simp add: ex_env_def no_faults_def)

lemma ex_off_disabled: "\<not> cf_enabled (annotations ex_ingress_off)"
  by (simp add: cf_enabled_def ex_ingress_off_def ENABLED_KEY_def TARGET_KEY_def py_lower_def
      lower_char_def)

lemma doomed_named [simp]:
  "doomed pl ns p (pl', ns', named n) \<longleftrightarrow> pl' = pl \<and> ns' = ns \<and> startswith n p"
  by (simp add: doomed_def)

theorem C2_teardown_by_prefix_witness:
  "\<not> cf_enabled (annotations ex_ingress_off)
   \<and> (\<forall>n c. faults ex_env n c = None)
   \<and> store_wf (objects ex_cluster)
   \<and> fst (reconcile_ingress ex_env (annotations ex_ingress_off) ''ns'' ''app'' ex_cluster) = Inr ()
   \<and> objects (snd (reconcile_ingress ex_env (annotations ex_ingress_off) ''ns'' ''app'' ex_cluster))
       = [(''distributions'', ''ns'', named ''ns-other-distribution''),
          (''distributions'', ''prod'', named ''ns-app-distribution'')]
   \<and> trace (snd (reconcile_ingress ex_env (annotations ex_ingress_off) ''ns'' ''app'' ex_cluster))
       = [ListObj ''distributions'' ''ns'',
          DeleteObj ''distributions'' ''ns'' ''ns-app-distribution'',
          ListObj ''functions'' ''ns'',
          DeleteObj ''functions'' ''ns'' ''ns-app-fn'',
          ListObj ''cachepolicies'' ''ns'',
          ListObj ''originrequestpolicies'' ''ns'', ListObj ''keygroups'' ''ns'',
          PatchIngress ''app'' ''ns'' None]"
proof -
  have o: "filter (\<lambda>obj. \<not> to_delete ''ns'' ''app'' obj) (objects ex_cluster)
       = [(''distributions'', ''ns'', named ''ns-other-distribution''),
          (''distributions'', ''prod'', named ''ns-app-distribution'')]"
    by (simp add: to_delete_def PLURAL_MAP_def ex_cluster_def startswith_def)
  have t: "teardown_calls ''ns'' ''app'' (objects ex_cluster)
       = [ListObj ''distributions'' ''ns'',
          DeleteObj ''distributions'' ''ns'' ''ns-app-distribution'',
          ListObj ''functions'' ''ns'',
          DeleteObj ''functions'' ''ns'' ''ns-app-fn'',
          ListObj ''cachepolicies'' ''ns'',
          ListObj ''originrequestpolicies'' ''ns'', ListObj ''keygroups'' ''ns'',
          PatchIngress ''app'' ''ns'' None]"
    by (simp add: teardown_calls_def doomed_names_def PLURAL_MAP_def ex_cluster_def startswith_def)
  have tr: "trace ex_cluster = []" by (simp add: ex_cluster_def)
  show ?thesis
    using C2_teardown_by_prefix [OF ex_off_disabled, of ex_env "''ns''" "''app''" ex_cluster]
      ex_off_disabled ex_env_no_faults store_wf_ex_cluster
    by (simp add: o t tr)
qed





section \<open>The enabled path\<close>

lemma resource_ofD:
  assumes "resource_of d = Some (pl, ns, n)"
  shows "\<exists>k. py_get d ''kind'' YNull = Inr (YStr k) \<and> plural_get (YStr k) = Inr (Some pl)
           \<and> kind_of d = k"
    and "get_in d [''metadata'', ''namespace''] = Inr (YStr ns)"
    and "get_in d [''metadata'', ''name''] = Inr (YStr n)"
    and "name_of d = Some n"
proof -
  from assms obtain kind where k: "py_get d ''kind'' YNull = Inr kind"
    "plural_get kind = Inr (Some pl)"
    and ns: "get_in d [''metadata'', ''namespace''] = Inr (YStr ns)"
    and n: "get_in d [''metadata'', ''name''] = Inr (YStr n)"
    unfolding resource_of_def
    by (auto simp: bind_eq_Inr split: sum.splits option.splits yaml.splits simp del: get_in.simps)
  from k(2) obtain s where "kind = YStr s" by (cases kind) (auto simp: plural_get_def)
  with k show "\<exists>k. py_get d ''kind'' YNull = Inr (YStr k) \<and> plural_get (YStr k) = Inr (Some pl)
           \<and> kind_of d = k"
    by (simp add: kind_of_def)
  show "get_in d [''metadata'', ''namespace''] = Inr (YStr ns)" by (rule ns)
  show "get_in d [''metadata'', ''name''] = Inr (YStr n)" by (rule n)
  show "name_of d = Some n" using n by (simp add: name_of_def del: get_in.simps)
qed

lemma exists_obj_trace [simp]: "exists_obj (w\<lparr>trace := t\<rparr>) pl ns n = exists_obj w pl ns n"
  by (simp add: exists_obj_def)

lemma create_or_update_crd_present:
  assumes nf: "\<forall>n c. faults e n c = None" and r: "resource_of d = Some (pl, ns, n)"
    and ex: "exists_obj w pl ns n"
  shows "create_or_update_crd e d w =
     (Inr (), w\<lparr>trace := trace w @ [GetObj pl ns n],
               logs := logs w @ [Info (kind_of d @ '' '' @ n @ '' already exists'')]\<rparr>)"
proof -
  from resource_ofD(1) [OF r] obtain k where k: "py_get d ''kind'' YNull = Inr (YStr k)"
    "plural_get (YStr k) = Inr (Some pl)" "kind_of d = k" by blast
  note ns = resource_ofD(2) [OF r] and n = resource_ofD(3) [OF r]
  from ex obtain obj where "find (is_obj pl ns n) (objects w) = Some obj"
    unfolding exists_obj_def by (cases "find (is_obj pl ns n) (objects w)") auto
  then show ?thesis
    using k ns n nf
    by (simp add: create_or_update_crd_def seq_def lift_def try_except_def
        get_namespaced_custom_object_def issue_def Let_def get_server_def logger_info_def
        py_format_def del: get_in.simps)
qed

lemma create_or_update_crd_absent:
  assumes nf: "\<forall>n c. faults e n c = None" and r: "resource_of d = Some (pl, ns, n)"
    and ex: "\<not> exists_obj w pl ns n"
  shows "create_or_update_crd e d w =
     (Inr (), w\<lparr>objects := objects w @ [(pl, ns, d)],
               trace := trace w @ [GetObj pl ns n, CreateObj pl ns d],
               logs := logs w @ [Info (''Created '' @ kind_of d @ '' '' @ n)]\<rparr>)"
proof -
  from resource_ofD(1) [OF r] obtain k where k: "py_get d ''kind'' YNull = Inr (YStr k)"
    "plural_get (YStr k) = Inr (Some pl)" "kind_of d = k" by blast
  note ns = resource_ofD(2) [OF r] and n = resource_ofD(3) [OF r] and nm = resource_ofD(4) [OF r]
  from ex have "find (is_obj pl ns n) (objects w) = None"
    unfolding exists_obj_def by blast
  then show ?thesis
    using k ns n nm nf ex
    by (simp add: create_or_update_crd_def seq_def lift_def try_except_def
        get_namespaced_custom_object_def create_namespaced_custom_object_def issue_def Let_def
        get_server_def create_server_def logger_info_def py_format_def is_ApiException_def
        del: get_in.simps)
qed

lemma exists_after_create:
  assumes "name_of d = Some n"
  shows "exists_obj (w\<lparr>objects := objects w @ [(pl, ns, d)], trace := t, logs := l\<rparr>) pl ns n"
  using assms by (auto simp: exists_obj_def find_None_iff is_obj_def)

lemma exists_mono:
  "exists_obj w pl' ns' n' \<Longrightarrow>
   exists_obj (w\<lparr>objects := objects w @ xs, trace := t, logs := l\<rparr>) pl' ns' n'"
  by (auto simp: exists_obj_def find_None_iff)

lemma exists_same:
  "exists_obj (w\<lparr>trace := t, logs := l\<rparr>) pl ns n = exists_obj w pl ns n"
  by (simp add: exists_obj_def)

text \<open>One call of \<open>create_or_update_crd\<close> when nothing fails.\<close>

lemma create_or_update_crd_ensures:
  assumes nf: "\<forall>n c. faults e n c = None" and r: "resource_of d = Some (pl, ns, n)"
  shows "\<exists>w'. create_or_update_crd e d w = (Inr (), w') \<and> exists_obj w' pl ns n
          \<and> (\<forall>pl' ns' n'. exists_obj w pl' ns' n' \<longrightarrow> exists_obj w' pl' ns' n')"
proof (cases "exists_obj w pl ns n")
  case True
  show ?thesis
    unfolding create_or_update_crd_present [OF nf r True] using True
    by (simp add: exists_same)
next
  case False
  show ?thesis
    unfolding create_or_update_crd_absent [OF nf r False]
    using exists_after_create [OF resource_ofD(4) [OF r]] exists_mono by simp
qed

lemma create_or_update_all_first:
  assumes nf: "\<forall>n c. faults e n c = None"
  shows "list_all (\<lambda>d. resource_of d \<noteq> None) docs \<Longrightarrow>
     \<exists>w1. create_or_update_all e docs w = (Inr (), w1)
       \<and> list_all (present w1) (List.map_filter resource_of docs)
       \<and> (\<forall>r. present w r \<longrightarrow> present w1 r)"
proof (induction docs arbitrary: w)
  case Nil
  show ?case by (simp add: ret_def)
next
  case (Cons d docs)
  from Cons.prems obtain pl ns n where r: "resource_of d = Some (pl, ns, n)" by auto
  from create_or_update_crd_ensures [OF nf r, of w] obtain w' where
    c: "create_or_update_crd e d w = (Inr (), w')" and ex: "exists_obj w' pl ns n" and
    mono: "\<forall>pl' ns' n'. exists_obj w pl' ns' n' \<longrightarrow> exists_obj w' pl' ns' n'"
    by blast
  from Cons.prems have rest: "list_all (\<lambda>d. resource_of d \<noteq> None) docs" by simp
  from Cons.IH [OF rest, of w'] obtain w1 where
    a: "create_or_update_all e docs w' = (Inr (), w1)" and
    p: "list_all (present w1) (List.map_filter resource_of docs)" and
    m: "\<forall>r. present w' r \<longrightarrow> present w1 r"
    by blast
  from ex m have "present w1 (pl, ns, n)" by (simp add: present_def)
  moreover from mono m have "\<forall>r. present w r \<longrightarrow> present w1 r" by (simp add: present_def)
  ultimately show ?case using c a p r by (simp add: seq_def map_filter_simps)
qed

lemma create_or_update_all_second:
  assumes nf: "\<forall>n c. faults e n c = None"
  shows "list_all (\<lambda>d. resource_of d \<noteq> None) docs \<Longrightarrow>
     list_all (present w) (List.map_filter resource_of docs) \<Longrightarrow>
     \<exists>w2. create_or_update_all e docs w = (Inr (), w2)
       \<and> objects w2 = objects w
       \<and> trace w2 = trace w @ map get_call (List.map_filter resource_of docs)"
proof (induction docs arbitrary: w)
  case Nil
  show ?case by (simp add: ret_def)
next
  case (Cons d docs)
  from Cons.prems(1) obtain pl ns n where r: "resource_of d = Some (pl, ns, n)" by auto
  with Cons.prems(2) have ex: "exists_obj w pl ns n" by (simp add: map_filter_simps present_def)
  let ?w' = "w\<lparr>trace := trace w @ [GetObj pl ns n],
               logs := logs w @ [Info (kind_of d @ '' '' @ n @ '' already exists'')]\<rparr>"
  note c = create_or_update_crd_present [OF nf r ex]
  from Cons.prems(1) have rest: "list_all (\<lambda>d. resource_of d \<noteq> None) docs" by simp
  have "present ?w' = present w" by (simp add: present_def exists_obj_def fun_eq_iff)
  with Cons.prems(2) r have "list_all (present ?w') (List.map_filter resource_of docs)"
    by (simp add: map_filter_simps)
  from Cons.IH [OF rest this] obtain w2 where
    "create_or_update_all e docs ?w' = (Inr (), w2)" "objects w2 = objects ?w'"
    "trace w2 = trace ?w' @ map get_call (List.map_filter resource_of docs)"
    by blast
  then show ?case using c r by (simp add: seq_def map_filter_simps get_call_def)
qed

lemma materialized_resource:
  assumes "load_and_patch_template fm tpl ns nm dns = Inr docs" and "d \<in> set docs"
  shows "\<exists>pl n. resource_of d = Some (pl, ns, n)"
proof -
  from assms(1) obtain ts where "patch_docs fm ns nm dns ts = Inr docs"
    by (auto simp: load_and_patch_template_def bind_eq_Inr)
  from patch_docs_member [OF this assms(2)] obtain t where
    "patch_doc fm ns nm dns t = Inr (Some d)" by blast
  from patch_doc_Some [OF this] obtain k pl where
    "py_get d ''kind'' YNull = Inr (YStr k)" "map_of PLURAL_MAP k = Some pl"
    "get_in d [''metadata'', ''name''] = Inr (YStr (name_prefix_of ns nm @ original_name fm t))"
    "get_in d [''metadata'', ''namespace''] = Inr (YStr ns)"
    by blast
  then show ?thesis
    by (simp add: resource_of_def plural_get_def del: get_in.simps)
qed

lemma enabled_tick:
  assumes "cf_enabled anns"
  shows "\<exists>w'. reconcile_ingress e anns ns nm w = (Inr (), w') \<and> objects w' = objects w
          \<and> ingresses w' = ingresses w \<and> trace w' = trace w @ [ReadIngress nm ns]"
  using assms
  by (auto simp: reconcile_ingress_def seq_def logger_info_def try_except_def
      read_namespaced_ingress_def issue_def Let_def read_ingress_server_def lift_def ret_def
      logger_error_def split: option.splits sum.splits)

lemma create_or_update_crd_calls:
  "\<exists>cs. trace (snd (create_or_update_crd e d w)) = trace w @ cs
     \<and> (cs = [] \<or> (\<exists>pl ns n. resource_of d = Some (pl, ns, n)
            \<and> (cs = [GetObj pl ns n] \<or> cs = [GetObj pl ns n, CreateObj pl ns d])))"
proof (cases "resource_of d")
  case None
  then have "trace (snd (create_or_update_crd e d w)) = trace w"
    unfolding create_or_update_crd_def resource_of_def
    by (auto simp: seq_def lift_def ret_def try_except_def bind_def
        get_namespaced_custom_object_def is_ApiException_def logger_error_def logger_info_def
        split: sum.splits option.splits yaml.splits simp del: get_in.simps)
  then show ?thesis by simp
next
  case (Some r)
  obtain pl ns n where r: "r = (pl, ns, n)" by (cases r) auto
  from resource_ofD(1) [OF Some [unfolded r]] obtain k where k: "py_get d ''kind'' YNull = Inr (YStr k)"
    "plural_get (YStr k) = Inr (Some pl)" by blast
  note ns = resource_ofD(2) [OF Some [unfolded r]] and n = resource_ofD(3) [OF Some [unfolded r]]
  have "trace (snd (create_or_update_crd e d w)) = trace w @ [GetObj pl ns n]
      \<or> trace (snd (create_or_update_crd e d w)) = trace w @ [GetObj pl ns n, CreateObj pl ns d]"
    using k ns n
    by (auto simp: create_or_update_crd_def seq_def lift_def try_except_def
        get_namespaced_custom_object_def create_namespaced_custom_object_def issue_def Let_def
        get_server_def create_server_def logger_info_def logger_error_def
        split: option.splits sum.splits prod.splits simp del: get_in.simps)
  then show ?thesis using Some r by auto
qed

lemma cf_enabled_true: "cf_enabled [ENABLED_KEY \<mapsto> ''true'']"
  by (simp add: cf_enabled_def py_lower_def lower_char_def)

lemma ex_enabled: "cf_enabled (annotations ex_ingress)"
  by (simp add: ex_ingress_def cf_enabled_true)

lemma ex_enabled_run:
  "reconcile_ingress ex_env (annotations ex_ingress) ''ns'' ''app'' ex_world
     = (Inr (), ex_world\<lparr>trace := [ReadIngress ''app'' ''ns''],
          logs := [Info ''Processing Ingress: app in namespace: ns'',
                   Info ''Annotations: cloudfront.aws.k8s.io/enabled=true, external-dns.alpha.kubernetes.io/target=not set'',
                   Info ''Retrieved LoadBalancer hostname: alb.example.com'']\<rparr>)"
proof -
  have m: "load_and_patch_template (fmt ex_env) (template ex_env) ''ns'' ''app''
             (opt_yaml (Some ''alb.example.com'')) = Inr [ex_out_distribution, ex_out_function]"
    using ex_materialized by (simp add: ex_env_def opt_yaml_def)
  have n: "not_set (annotations ex_ingress) ENABLED_KEY = ''true''"
          "not_set (annotations ex_ingress) TARGET_KEY = ''not set''"
    by (simp_all add: not_set_def ex_ingress_def ENABLED_KEY_def TARGET_KEY_def)
  have h: "alb_hostname ex_ingress = Inr (Some ''alb.example.com'')"
    by (simp add: alb_hostname_def ex_ingress_def)
  have f: "faults ex_env 0 (ReadIngress ''app'' ''ns'') = None"
    by (simp add: ex_env_def no_faults_def)
  show ?thesis
    unfolding reconcile_ingress_def n
    using ex_enabled m h f
    by (simp add: seq_def logger_info_def try_except_def read_namespaced_ingress_def issue_def
        Let_def read_ingress_server_def lift_def ret_def ex_world_def)
qed

text \<open>
  C1, as the code has it. On a tick whose desired state is Enabled the engine issues no
  call on the custom objects and leaves the store as it was: the only call is the read of
  the Ingress, and the loop over the materialized documents is commented out.
  \<open>create_or_update_crd\<close>, called on a materialized document when no call fails, first
  checks that the object exists; it logs if it does and creates it if it does not, and
  the object exists in the store afterwards.
\<close>

theorem C1_enabled_tick_creates_nothing:
  assumes "cf_enabled anns"
  shows "(\<exists>w'. reconcile_ingress e anns ns nm w = (Inr (), w') \<and> objects w' = objects w
            \<and> trace w' = trace w @ [ReadIngress nm ns])
       \<and> ((\<forall>n c. faults e n c = None) \<and> load_and_patch_template fm tpl ns nm dns = Inr docs
            \<and> d \<in> set docs \<longrightarrow>
            (\<exists>pl n w1. resource_of d = Some (pl, ns, n)
               \<and> create_or_update_crd e d w0 = (Inr (), w1) \<and> exists_obj w1 pl ns n
               \<and> (if exists_obj w0 pl ns n
                   then objects w1 = objects w0 \<and> trace w1 = trace w0 @ [GetObj pl ns n]
                        \<and> logs w1 = logs w0 @ [Info (kind_of d @ '' '' @ n @ '' already exists'')]
                   else objects w1 = objects w0 @ [(pl, ns, d)]
                        \<and> trace w1 = trace w0 @ [GetObj pl ns n, CreateObj pl ns d])))"
proof -
  have a: "\<exists>w'. reconcile_ingress e anns ns nm w = (Inr (), w') \<and> objects w' = objects w
            \<and> trace w' = trace w @ [ReadIngress nm ns]"
    using enabled_tick [OF assms, of e ns nm w] by blast
  have b: "\<exists>pl n w1. resource_of d = Some (pl, ns, n)
               \<and> create_or_update_crd e d w0 = (Inr (), w1) \<and> exists_obj w1 pl ns n
               \<and> (if exists_obj w0 pl ns n
                   then objects w1 = objects w0 \<and> trace w1 = trace w0 @ [GetObj pl ns n]
                        \<and> logs w1 = logs w0 @ [Info (kind_of d @ '' '' @ n @ '' already exists'')]
                   else objects w1 = objects w0 @ [(pl, ns, d)]
                        \<and> trace w1 = trace w0 @ [GetObj pl ns n, CreateObj pl ns d])"
    if nf: "\<forall>n c. faults e n c = None"
      and m: "load_and_patch_template fm tpl ns nm dns = Inr docs" and d: "d \<in> set docs"
  proof -
    from materialized_resource [OF m d] obtain pl n where r: "resource_of d = Some (pl, ns, n)"
      by blast
    show ?thesis
    proof (cases "exists_obj w0 pl ns n")
      case True
      show ?thesis
        using r True create_or_update_crd_present [OF nf r True]
        by (intro exI [of _ pl] exI [of _ n]) (simp add: exists_same)
    next
      case False
      show ?thesis
        using r False create_or_update_crd_absent [OF nf r False]
          exists_after_create [OF resource_ofD(4) [OF r]]
        by (intro exI [of _ pl] exI [of _ n]) simp
    qed
  qed
  from a b show ?thesis by blast
qed

theorem C1_enabled_tick_creates_nothing_witness:
  "cf_enabled (annotations ex_ingress)
   \<and> (\<forall>n c. faults ex_env n c = None)
   \<and> load_and_patch_template ex_fmt (Inr ex_template) ''ns'' ''app'' (YStr ''alb.example.com'')
       = Inr [ex_out_distribution, ex_out_function]
   \<and> objects (snd (reconcile_ingress ex_env (annotations ex_ingress) ''ns'' ''app'' ex_world)) = []
   \<and> fst (create_or_update_crd ex_env ex_out_distribution ex_world) = Inr ()
   \<and> exists_obj (snd (create_or_update_crd ex_env ex_out_distribution ex_world))
       ''distributions'' ''ns'' ''ns-app-distribution''
   \<and> trace (snd (create_or_update_crd ex_env ex_out_distribution ex_world))
       = [GetObj ''distributions'' ''ns'' ''ns-app-distribution'',
          CreateObj ''distributions'' ''ns'' ex_out_distribution]"
proof -
  have r: "resource_of ex_out_distribution = Some (''distributions'', ''ns'', ''ns-app-distribution'')"
    by (simp add: resource_of_def ex_out_distribution_def py_get_def plural_get_def py_getitem_def)
  have ne: "\<not> exists_obj ex_world ''distributions'' ''ns'' ''ns-app-distribution''"
    by (simp add: exists_obj_def ex_world_def)
  have m: "ex_out_distribution \<in> set [ex_out_distribution, ex_out_function]" by simp
  have w: "objects ex_world = []" "trace ex_world = []" by (simp_all add: ex_world_def)
  from C1_enabled_tick_creates_nothing [OF ex_enabled, of ex_env "''ns''" "''app''" ex_world
      ex_fmt "Inr ex_template" "YStr ''alb.example.com''" "[ex_out_distribution, ex_out_function]"
      ex_out_distribution ex_world]
    ex_env_no_faults ex_materialized m r ne w
  show ?thesis using ex_enabled by auto
qed

theorem C1_counterexample:
  "cf_enabled (annotations ex_ingress)
   \<and> alb_hostname ex_ingress = Inr (Some ''alb.example.com'')
   \<and> load_and_patch_template ex_fmt (Inr ex_template) ''ns'' ''app'' (YStr ''alb.example.com'')
       = Inr [ex_out_distribution, ex_out_function]
   \<and> trace (snd (reconcile_ingress ex_env (annotations ex_ingress) ''ns'' ''app'' ex_world))
       = [ReadIngress ''app'' ''ns'']
   \<and> \<not> exists_obj (snd (reconcile_ingress ex_env (annotations ex_ingress) ''ns'' ''app'' ex_world))
         ''distributions'' ''ns'' ''ns-app-distribution''"
proof -
  have t: "trace (snd (reconcile_ingress ex_env (annotations ex_ingress) ''ns'' ''app'' ex_world))
       = [ReadIngress ''app'' ''ns'']"
    unfolding ex_enabled_run by simp
  have o: "objects (snd (reconcile_ingress ex_env (annotations ex_ingress) ''ns'' ''app'' ex_world))
       = []"
    unfolding ex_enabled_run by (simp add: ex_world_def)
  have h: "alb_hostname ex_ingress = Inr (Some ''alb.example.com'')"
    by (simp add: alb_hostname_def ex_ingress_def)
  show ?thesis
    using ex_enabled ex_materialized t h by (simp add: exists_obj_def o)
qed

text \<open>
  C6. Two Enabled ticks in a row leave the store as one tick does, and the second tick
  issues no create. For the loop over the materialized documents, when no call fails: a
  second pass right after the first finds every resource present, issues one existence
  check for each document and no create, and leaves the store as the first pass left it.
  Under any faults, a create issued by \<open>create_or_update_crd\<close> comes directly after the
  existence check of the same resource.
\<close>

theorem C6_enabled_idempotent:
  "(cf_enabled anns \<longrightarrow>
      (\<exists>w1 w2. reconcile_ingress e anns ns nm w = (Inr (), w1)
         \<and> reconcile_ingress e anns ns nm w1 = (Inr (), w2)
         \<and> objects w2 = objects w1 \<and> trace w2 = trace w1 @ [ReadIngress nm ns]))
   \<and> ((\<forall>n c. faults e n c = None) \<and> load_and_patch_template fm tpl ns nm dns = Inr docs \<longrightarrow>
      (\<exists>w1 w2. create_or_update_all e docs w = (Inr (), w1)
         \<and> create_or_update_all e docs w1 = (Inr (), w2)
         \<and> objects w2 = objects w1
         \<and> length (List.map_filter resource_of docs) = length docs
         \<and> list_all (present w1) (List.map_filter resource_of docs)
         \<and> trace w2 = trace w1 @ map get_call (List.map_filter resource_of docs)))
   \<and> (\<exists>cs. trace (snd (create_or_update_crd e d w)) = trace w @ cs
         \<and> (cs = [] \<or> (\<exists>pl ns' n. resource_of d = Some (pl, ns', n)
                \<and> (cs = [GetObj pl ns' n] \<or> cs = [GetObj pl ns' n, CreateObj pl ns' d]))))"
proof -
  have a: "\<exists>w1 w2. reconcile_ingress e anns ns nm w = (Inr (), w1)
         \<and> reconcile_ingress e anns ns nm w1 = (Inr (), w2)
         \<and> objects w2 = objects w1 \<and> trace w2 = trace w1 @ [ReadIngress nm ns]"
    if en: "cf_enabled anns"
  proof -
    from enabled_tick [OF en, of e ns nm w] obtain w1 where
      1: "reconcile_ingress e anns ns nm w = (Inr (), w1)" by blast
    from enabled_tick [OF en, of e ns nm w1] obtain w2 where
      "reconcile_ingress e anns ns nm w1 = (Inr (), w2)" "objects w2 = objects w1"
      "trace w2 = trace w1 @ [ReadIngress nm ns]" by blast
    with 1 show ?thesis by blast
  qed
  have b: "\<exists>w1 w2. create_or_update_all e docs w = (Inr (), w1)
         \<and> create_or_update_all e docs w1 = (Inr (), w2)
         \<and> objects w2 = objects w1
         \<and> length (List.map_filter resource_of docs) = length docs
         \<and> list_all (present w1) (List.map_filter resource_of docs)
         \<and> trace w2 = trace w1 @ map get_call (List.map_filter resource_of docs)"
    if nf: "\<forall>n c. faults e n c = None"
      and m: "load_and_patch_template fm tpl ns nm dns = Inr docs"
  proof -
    have all: "list_all (\<lambda>d. resource_of d \<noteq> None) docs"
      using materialized_resource [OF m] by (fastforce simp: list_all_iff)
    then have len: "length (List.map_filter resource_of docs) = length docs"
      by (induction docs) (auto simp: map_filter_simps)
    from create_or_update_all_first [OF nf all, of w] obtain w1 where
      1: "create_or_update_all e docs w = (Inr (), w1)" and
      p: "list_all (present w1) (List.map_filter resource_of docs)" by blast
    from create_or_update_all_second [OF nf all p] obtain w2 where
      "create_or_update_all e docs w1 = (Inr (), w2)" "objects w2 = objects w1"
      "trace w2 = trace w1 @ map get_call (List.map_filter resource_of docs)" by blast
    with 1 p len show ?thesis by blast
  qed
  from a b create_or_update_crd_calls [of e d w] show ?thesis by blast
qed

theorem C6_enabled_idempotent_witness:
  "cf_enabled (annotations ex_ingress)
   \<and> (\<forall>n c. faults ex_env n c = None)
   \<and> load_and_patch_template ex_fmt (Inr ex_template) ''ns'' ''app'' (YStr ''alb.example.com'')
       = Inr [ex_out_distribution, ex_out_function]
   \<and> fst (create_or_update_all ex_env [ex_out_distribution, ex_out_function]
            (snd (create_or_update_all ex_env [ex_out_distribution, ex_out_function] ex_world)))
       = Inr ()
   \<and> objects (snd (create_or_update_all ex_env [ex_out_distribution, ex_out_function]
            (snd (create_or_update_all ex_env [ex_out_distribution, ex_out_function] ex_world))))
       = objects (snd (create_or_update_all ex_env [ex_out_distribution, ex_out_function] ex_world))
   \<and> trace (snd (create_or_update_all ex_env [ex_out_distribution, ex_out_function]
            (snd (create_or_update_all ex_env [ex_out_distribution, ex_out_function] ex_world))))
       = trace (snd (create_or_update_all ex_env [ex_out_distribution, ex_out_function] ex_world))
         @ [GetObj ''distributions'' ''ns'' ''ns-app-distribution'',
            GetObj ''functions'' ''ns'' ''ns-app-cf-object'']"
proof -
  have r: "List.map_filter resource_of [ex_out_distribution, ex_out_function]
       = [(''distributions'', ''ns'', ''ns-app-distribution''),
          (''functions'', ''ns'', ''ns-app-cf-object'')]"
    by (simp add: map_filter_simps resource_of_def ex_out_distribution_def ex_out_function_def
        py_get_def plural_get_def py_getitem_def)
  from C6_enabled_idempotent [of "annotations ex_ingress" ex_env "''ns''" "''app''" ex_world
      ex_fmt "Inr ex_template" "YStr ''alb.example.com''" "[ex_out_distribution, ex_out_function]"]
    ex_env_no_faults ex_materialized
  obtain w1 w2 where
    1: "create_or_update_all ex_env [ex_out_distribution, ex_out_function] ex_world = (Inr (), w1)" and
    2: "create_or_update_all ex_env [ex_out_distribution, ex_out_function] w1 = (Inr (), w2)" and
    3: "objects w2 = objects w1" and
    4: "trace w2 = trace w1 @ map get_call
       (List.map_filter resource_of [ex_out_distribution, ex_out_function])"
    by blast
  have 5: "trace w2 = trace w1 @ [GetObj ''distributions'' ''ns'' ''ns-app-distribution'',
            GetObj ''functions'' ''ns'' ''ns-app-cf-object'']"
    unfolding 4 r by (simp add: get_call_def)
  show ?thesis
    unfolding 1 snd_conv 2 fst_conv
    using ex_enabled ex_env_no_faults ex_materialized 3 5 by simp
qed

lemma enabled_unresolved_skips:
  assumes "cf_enabled anns" and "faults e (length (trace w)) (ReadIngress nm ns) = None"
    and "ingresses w (ns, nm) = Some ing" and "alb_hostname ing = Inl x"
  shows "reconcile_ingress e anns ns nm w =
     (Inr (), w\<lparr>trace := trace w @ [ReadIngress nm ns],
        logs := logs w @
          [Info (''Processing Ingress: '' @ nm @ '' in namespace: '' @ ns),
           Info (''Annotations: cloudfront.aws.k8s.io/enabled='' @ not_set anns ENABLED_KEY
                 @ '', external-dns.alpha.kubernetes.io/target='' @ not_set anns TARGET_KEY),
           Error (''Failed to retrieve LoadBalancer hostname for Ingress '' @ nm @ '': '') x]\<rparr>)"
  using assms
  by (simp add: reconcile_ingress_def seq_def logger_info_def try_except_def
      read_namespaced_ingress_def issue_def Let_def read_ingress_server_def lift_def
      logger_error_def)

text \<open>
  C9, at an Ingress whose first load-balancer entry carries an address but no hostname.
  The desired state is Enabled and no hostname is assigned, yet the tick is not skipped:
  it logs \<open>Retrieved LoadBalancer hostname: None\<close>, materializes the template with that
  value, and logs no skip. It issues no call on the custom objects and no patch.
\<close>

theorem C9_entry_without_hostname:
  "cf_enabled (annotations ex_ingress_ip)
   \<and> alb_hostname ex_ingress_ip = Inr None
   \<and> reconcile_ingress ex_env (annotations ex_ingress_ip) ''ns'' ''app'' ex_world_ip
     = (Inr (), ex_world_ip\<lparr>trace := [ReadIngress ''app'' ''ns''],
          logs := [Info ''Processing Ingress: app in namespace: ns'',
                   Info ''Annotations: cloudfront.aws.k8s.io/enabled=true, external-dns.alpha.kubernetes.io/target=not set'',
                   Info ''Retrieved LoadBalancer hostname: None'']\<rparr>)"
proof -
  have en: "cf_enabled (annotations ex_ingress_ip)"
    by (simp add: ex_ingress_ip_def cf_enabled_true)
  have n: "not_set (annotations ex_ingress_ip) ENABLED_KEY = ''true''"
          "not_set (annotations ex_ingress_ip) TARGET_KEY = ''not set''"
    by (simp_all add: not_set_def ex_ingress_ip_def ENABLED_KEY_def TARGET_KEY_def)
  have h: "alb_hostname ex_ingress_ip = Inr None"
    by (simp add: alb_hostname_def ex_ingress_ip_def)
  have f: "faults ex_env 0 (ReadIngress ''app'' ''ns'') = None"
    by (simp add: ex_env_def no_faults_def)
  have m: "\<exists>docs. load_and_patch_template (fmt ex_env) (template ex_env) ''ns'' ''app''
             (opt_yaml None) = Inr docs"
    by (simp add: load_and_patch_template_def ex_template_def ex_distribution_def ex_unknown_def
      ex_function_def patch_doc_def py_get_def in_PLURAL_MAP_def plural_get_def py_setitem_def
      py_format_def name_prefix_of_def patch_distribution_def py_getitem_def py_setitem0_def
      py_getitem0_def origin_id_of_def ex_env_def opt_yaml_def)
  then obtain docs where m': "load_and_patch_template (fmt ex_env) (template ex_env) ''ns'' ''app''
             (opt_yaml None) = Inr docs" by blast
  have "reconcile_ingress ex_env (annotations ex_ingress_ip) ''ns'' ''app'' ex_world_ip
     = (Inr (), ex_world_ip\<lparr>trace := [ReadIngress ''app'' ''ns''],
          logs := [Info ''Processing Ingress: app in namespace: ns'',
                   Info ''Annotations: cloudfront.aws.k8s.io/enabled=true, external-dns.alpha.kubernetes.io/target=not set'',
                   Info ''Retrieved LoadBalancer hostname: None'']\<rparr>)"
    unfolding reconcile_ingress_def n
    using en m' h f
    by (simp add: seq_def logger_info_def try_except_def read_namespaced_ingress_def issue_def
        Let_def read_ingress_server_def lift_def ret_def ex_world_ip_def)
  with en h show ?thesis by simp
qed

end
